theory Spec2Isabelle
  imports Complex_Main "HOL-Library.Multiset" "HOL-Library.Log_Nat"
begin

section \<open>JavaScript strings\<close>

text \<open>
  A JavaScript string is modelled as an Isabelle \<open>string\<close>: the list of the bytes of its
  UTF-8 text.  Its \<open>length\<close> in JavaScript counts UTF-16 code units: none for a
  continuation byte, two for the first byte of a four-byte sequence, one for any other
  byte.  Letter case is modelled on the ASCII range, which is what every literal compared
  against in the sources uses; bytes above 127 pass through \<open>toLowerCase\<close> unchanged.
\<close>

definition code_units :: "char \<Rightarrow> nat" where
  "code_units c =
     (if digit7 c \<and> \<not> digit6 c then 0
      else if digit7 c \<and> digit6 c \<and> digit5 c \<and> digit4 c then 2
      else 1)"

definition js_length :: "string \<Rightarrow> nat" where
  "js_length s = sum_list (map code_units s)"

definition lower_char :: "char \<Rightarrow> char" where
  "lower_char c =
     (case map_of (zip ''ABCDEFGHIJKLMNOPQRSTUVWXYZ'' ''abcdefghijklmnopqrstuvwxyz'') c of
        Some l \<Rightarrow> l
      | None \<Rightarrow> c)"

definition toLowerCase :: "string \<Rightarrow> string" where
  "toLowerCase s = map lower_char s"

text \<open>
  The white space of the language (\<open>WhiteSpace\<close> and \<open>LineTerminator\<close>), which
  \<open>String.prototype.trim\<close> and \<open>Number\<close> strip: tab, line feed, vertical tab, form feed,
  carriage return, space, U+00A0, U+1680, U+2000 to U+200A, U+2028, U+2029, U+202F,
  U+205F, U+3000 and U+FEFF, each as its UTF-8 bytes.
\<close>

definition ws_tokens :: "string list" where
  "ws_tokens =
     [[CHR 0x09], [CHR 0x0A], [CHR 0x0B], [CHR 0x0C], [CHR 0x0D], [CHR 0x20],
      [CHR 0xC2, CHR 0xA0],
      [CHR 0xE1, CHR 0x9A, CHR 0x80],
      [CHR 0xE2, CHR 0x80, CHR 0x80], [CHR 0xE2, CHR 0x80, CHR 0x81],
      [CHR 0xE2, CHR 0x80, CHR 0x82], [CHR 0xE2, CHR 0x80, CHR 0x83],
      [CHR 0xE2, CHR 0x80, CHR 0x84], [CHR 0xE2, CHR 0x80, CHR 0x85],
      [CHR 0xE2, CHR 0x80, CHR 0x86], [CHR 0xE2, CHR 0x80, CHR 0x87],
      [CHR 0xE2, CHR 0x80, CHR 0x88], [CHR 0xE2, CHR 0x80, CHR 0x89],
      [CHR 0xE2, CHR 0x80, CHR 0x8A],
      [CHR 0xE2, CHR 0x80, CHR 0xA8], [CHR 0xE2, CHR 0x80, CHR 0xA9],
      [CHR 0xE2, CHR 0x80, CHR 0xAF],
      [CHR 0xE2, CHR 0x81, CHR 0x9F],
      [CHR 0xE3, CHR 0x80, CHR 0x80],
      [CHR 0xEF, CHR 0xBB, CHR 0xBF]]"

text \<open>The length of the token that a string starts with, 0 when it starts with none.\<close>

definition token_len :: "string list \<Rightarrow> string \<Rightarrow> nat" where
  "token_len toks s =
     (case find (\<lambda>t. take (length t) s = t) toks of Some t \<Rightarrow> length t | None \<Rightarrow> 0)"

function strip :: "string list \<Rightarrow> string \<Rightarrow> string" where
  "strip toks s =
     (if token_len toks s = 0 then s else strip toks (drop (token_len toks s) s))"
  by pat_completeness auto
termination
proof (relation "measure (\<lambda>(toks, s). length s)")
  show "wf (measure (\<lambda>(toks, s). length s))" by simp
next
  fix toks :: "string list" and s :: string
  assume n: "token_len toks s \<noteq> 0"
  then obtain t where "find (\<lambda>t. take (length t) s = t) toks = Some t" "length t \<noteq> 0"
    by (auto simp: token_len_def split: option.splits)
  then have "take (length t) s = t" "t \<noteq> []" by (auto simp: find_Some_iff)
  then have "s \<noteq> []" by auto
  then show "((toks, drop (token_len toks s) s), (toks, s)) \<in> measure (\<lambda>(toks, s). length s)"
    using n by simp
qed

declare strip.simps [simp del]

text \<open>\<open>String.prototype.trim\<close>: white space is dropped at the start, then at the end.\<close>

definition trim :: "string \<Rightarrow> string" where
  "trim s = rev (strip (map rev ws_tokens) (rev (strip ws_tokens s)))"

text \<open>A string that neither starts nor ends with white space.\<close>

definition clean_ends :: "string \<Rightarrow> bool" where
  "clean_ends s = (token_len ws_tokens s = 0 \<and> token_len (map rev ws_tokens) (rev s) = 0)"

text \<open>\<open>s.includes(n)\<close>: \<open>n\<close> occurs in \<open>s\<close> at some position.\<close>

fun str_includes :: "string \<Rightarrow> string \<Rightarrow> bool" where
  "str_includes [] n = (n = [])"
| "str_includes (c # cs) n = (take (length n) (c # cs) = n \<or> str_includes cs n)"

text \<open>\<open>s.split(c)\<close> for a one-character separator; the result is never empty.\<close>

fun split :: "char \<Rightarrow> string \<Rightarrow> string list" where
  "split c [] = [[]]"
| "split c (x # xs) =
     (if x = c then [] # split c xs
      else (case split c xs of
              [] \<Rightarrow> [[x]]
            | p # ps \<Rightarrow> (x # p) # ps))"

text \<open>\<open>s.padStart(2, "0")\<close>.\<close>

definition padStart2 :: "string \<Rightarrow> string" where
  "padStart2 s = replicate (2 - js_length s) CHR ''0'' @ s"

text \<open>
  A value that may be \<open>undefined\<close> or \<open>null\<close> is an \<open>option\<close>; \<open>a ?? b\<close> is
  \<open>nullish a b\<close>, and \<open>String(v)\<close> of a missing string prints \<open>undefined\<close>.
\<close>

definition nullish :: "'a option \<Rightarrow> 'a option \<Rightarrow> 'a option" where
  "nullish a b = (case a of Some v \<Rightarrow> Some v | None \<Rightarrow> b)"

definition js_String :: "string option \<Rightarrow> string" where
  "js_String v = (case v of None \<Rightarrow> ''undefined'' | Some s \<Rightarrow> s)"

section \<open>Unit audit scoring (AuditForm.js)\<close>

definition kitchenParams :: "string list" where
  "kitchenParams =
     [''Overall kitchen cleanliness maintained'',
      ''Floors, walls, and ceilings clean and dry'',
      ''Cooking range and equipment properly cleaned'',
      ''Exhaust system functioning and cleaned'',
      ''Waste segregation & disposal followed'']"

definition hygieneParams :: "string list" where
  "hygieneParams =
     [''Staff wearing clean uniform, cap, gloves, mask'',
      ''Personal hygiene maintained (nails, hair, hand wash)'',
      ''Hand wash & sanitizer available and used'']"

text \<open>The degree sign of three labels is stored in the source file as the bytes below.\<close>

definition degree_bytes :: string where
  "degree_bytes = [CHR 0xC2, CHR 0xAC, CHR 0xE2, CHR 0x88, CHR 0x9E]"

definition foodSafetyParams :: "string list" where
  "foodSafetyParams =
     [''Bain Marie temperature maintained (>=60'' @ degree_bytes @ ''C)'',
      ''Fridge temperature maintained (<=5'' @ degree_bytes @ ''C)'',
      ''Freezer temperature maintained (<=-18'' @ degree_bytes @ ''C)'',
      ''Raw and cooked food stored separately'',
      ''Expiry date & labelling followed'']"

definition observationsOptions :: "string list" where
  "observationsOptions =
     [''-- Select --'',
      ''No issues observed'',
      ''Minor cleanliness issues (surface/sweep)'',
      ''Food held outside safe temperature range'',
      ''Cross-contamination risk observed'',
      ''Staff hygiene non-compliant'',
      ''Equipment malfunction (e.g., oven/fridge)'',
      ''Pest activity or droppings noted'',
      ''Expired or damaged items found'',
      ''Insufficient labeling / traceability'',
      ''Other (manual)'']"

definition maintenanceOptions :: "string list" where
  "maintenanceOptions =
     [''-- Select --'',
      ''No maintenance required'',
      ''Immediate cleaning required'',
      ''Schedule deep-cleaning'',
      ''Repair or service equipment'',
      ''Replace expired/damaged stock'',
      ''Retrain staff on hygiene & PPE'',
      ''Improve waste segregation & disposal'',
      ''Adjust/monitor temperature controls'',
      ''Improve labeling & storage procedures'',
      ''Implement daily cleaning checklist'',
      ''Other (manual)'']"

definition POINTS_PER_CHECK :: int where
  "POINTS_PER_CHECK = 6"

definition OBS_MAINT_PTS :: int where
  "OBS_MAINT_PTS = 11"

text \<open>
  The preset and the manual text are strings of the form state; the empty string is the
  falsy one (\<open>!preset\<close>, \<open>manual && ...\<close>).
\<close>

definition getObservationScore :: "string \<Rightarrow> string \<Rightarrow> int" where
  "getObservationScore preset manual =
     (let p = toLowerCase preset in
      if p = ''no issues observed'' then OBS_MAINT_PTS
      else if str_includes p ''other'' then
        (if manual \<noteq> [] \<and> str_includes (toLowerCase (trim manual)) ''no issue''
         then OBS_MAINT_PTS else - OBS_MAINT_PTS)
      else if preset = [] \<or> preset = ''-- Select --'' then 0
      else - OBS_MAINT_PTS)"

definition getMaintenanceScore :: "string \<Rightarrow> string \<Rightarrow> int" where
  "getMaintenanceScore preset manual =
     (let p = toLowerCase preset in
      if p = ''no maintenance required'' \<or> p = ''no issues observed'' then OBS_MAINT_PTS
      else if str_includes p ''other'' then
        (if manual \<noteq> [] \<and> str_includes (toLowerCase (trim manual)) ''no issue''
         then OBS_MAINT_PTS else - OBS_MAINT_PTS)
      else if preset = [] \<or> preset = ''-- Select --'' then 0
      else - OBS_MAINT_PTS)"

text \<open>
  A checklist section of the form is an object from item label to answer; \<open>obj?.[label]\<close>
  also accepts a missing object.
\<close>

type_synonym answers = "string \<rightharpoonup> string"

definition opt_get :: "answers option \<Rightarrow> string \<Rightarrow> string option" where
  "opt_get obj label = (case obj of None \<Rightarrow> None | Some m \<Rightarrow> m label)"

record scores =
  checklistRaw :: int
  obsScore :: int
  maintScore :: int
  rawScore :: int
  scoreOutOf100 :: int
  maxChecklist :: int

definition allParams :: "string list" where
  "allParams = kitchenParams @ hygieneParams @ foodSafetyParams"

definition checklist_step ::
  "answers option \<Rightarrow> answers option \<Rightarrow> answers option \<Rightarrow> string \<Rightarrow> int \<Rightarrow> int" where
  "checklist_step kitchenObj hygieneObj foodObj label acc =
     (let val = nullish (opt_get kitchenObj label)
                  (nullish (opt_get hygieneObj label) (opt_get foodObj label))
      in if toLowerCase (js_String val) = ''yes'' then acc + POINTS_PER_CHECK else acc)"

definition computeScores ::
  "answers option \<Rightarrow> answers option \<Rightarrow> answers option \<Rightarrow>
   string \<Rightarrow> string \<Rightarrow> string \<Rightarrow> string \<Rightarrow> scores" where
  "computeScores kitchenObj hygieneObj foodObj
     observationsPreset observationsManual maintenancePreset maintenanceManual =
     (let checklist = fold (checklist_step kitchenObj hygieneObj foodObj) allParams 0;
          obs = getObservationScore observationsPreset observationsManual;
          maint = getMaintenanceScore maintenancePreset maintenanceManual;
          raw = checklist + obs + maint;
          final = max 0 (min 100 raw)
      in \<lparr> checklistRaw = checklist, obsScore = obs, maintScore = maint, rawScore = raw,
           scoreOutOf100 = final,
           maxChecklist = int (length allParams) * POINTS_PER_CHECK \<rparr>)"

subsection \<open>The scoring rule as the specification words it\<close>

definition clamp :: "int \<Rightarrow> int \<Rightarrow> int \<Rightarrow> int" where
  "clamp x lo hi = (if x < lo then lo else if hi < x then hi else x)"

definition yes_count :: "answers \<Rightarrow> answers \<Rightarrow> answers \<Rightarrow> nat" where
  "yes_count k h f =
     length (filter (\<lambda>l. k l = Some ''Yes'') kitchenParams)
     + length (filter (\<lambda>l. h l = Some ''Yes'') hygieneParams)
     + length (filter (\<lambda>l. f l = Some ''Yes'') foodSafetyParams)"

definition spec_remark_score :: "string \<Rightarrow> string \<Rightarrow> string \<Rightarrow> int" where
  "spec_remark_score no_issue preset manual =
     (if preset = no_issue
         \<or> (preset = ''Other (manual)'' \<and> str_includes (toLowerCase manual) ''no issue'')
      then 11
      else if preset = ''-- Select --'' then 0
      else - 11)"

text \<open>A section holds Yes/No answers, and only for its own items.\<close>

definition yes_no_over :: "string list \<Rightarrow> answers \<Rightarrow> bool" where
  "yes_no_over items m =
     (\<forall>l v. m l = Some v \<longrightarrow> l \<in> set items \<and> (v = ''Yes'' \<or> v = ''No''))"

section \<open>Staff evaluation scoring (StaffEvaluation.js)\<close>

text \<open>
  \<open>RATING_VALUE\<close> is an object literal with four own keys.  (Looking up a name of
  \<open>Object.prototype\<close> in it would also be defined in JavaScript; the rating buttons
  only ever store one of \<open>ratingOptions\<close>.)
\<close>

definition RATING_VALUE :: "string \<rightharpoonup> int" where
  "RATING_VALUE =
     map_of [(''Excellent'', 100), (''Good'', 80), (''Average'', 60), (''Poor'', 40)]"

definition scoreToGrade :: "int \<Rightarrow> string" where
  "scoreToGrade n =
     (if n \<ge> 90 then ''A'' else if n \<ge> 75 then ''B'' else if n \<ge> 60 then ''C'' else ''D'')"

definition params :: "string list" where
  "params =
     [''Attendance / Punctuality'',
      ''Work Discipline'',
      ''Food Taste / Quality'',
      ''Hygiene & Grooming'',
      ''Teamwork / Attitude'']"

definition ratingOptions :: "string list" where
  "ratingOptions = [''Excellent'', ''Good'', ''Average'', ''Poor'']"

text \<open>
  \<open>Math.round\<close> rounds to the nearest integer, a half upwards.  The mean is a quotient of
  a sum of table values by a count of at most five; it is kept as an exact rational.
\<close>

definition Math_round :: "rat \<Rightarrow> int" where
  "Math_round x = \<lfloor>x + 1 / 2\<rfloor>"

definition push_rating :: "answers option \<Rightarrow> string \<Rightarrow> int list \<Rightarrow> int list" where
  "push_rating ratingsObj k vals =
     (case opt_get ratingsObj k of
        None \<Rightarrow> vals
      | Some r \<Rightarrow>
          if r \<noteq> [] then (case RATING_VALUE r of Some v \<Rightarrow> vals @ [v] | None \<Rightarrow> vals)
          else vals)"

definition computeStaffScore :: "answers option \<Rightarrow> int option" where
  "computeStaffScore ratingsObj =
     (let vals = fold (push_rating ratingsObj) params [] in
      if length vals = 0 then None
      else Some (Math_round (of_int (foldl (+) 0 vals) / of_nat (length vals))))"

definition computedGrade :: "int option \<Rightarrow> string" where
  "computedGrade computedScore =
     (case computedScore of Some n \<Rightarrow> scoreToGrade n | None \<Rightarrow> [])"

subsection \<open>The staff score as the specification words it\<close>

definition answered :: "answers \<Rightarrow> string list" where
  "answered r = filter (\<lambda>k. r k \<noteq> None) params"

definition rating_number :: "string \<Rightarrow> int" where
  "rating_number v =
     (if v = ''Excellent'' then 100 else if v = ''Good'' then 80
      else if v = ''Average'' then 60 else 40)"

definition mean_rating :: "answers \<Rightarrow> rat" where
  "mean_rating r =
     of_int (sum_list (map (\<lambda>k. rating_number (the (r k))) (answered r)))
     / of_nat (length (answered r))"

definition rated :: "answers \<Rightarrow> bool" where
  "rated r =
     (\<forall>k \<in> set params. case r k of None \<Rightarrow> True | Some v \<Rightarrow> v \<in> set ratingOptions)"

section \<open>Decimal digits\<close>

definition isDigit :: "char \<Rightarrow> bool" where
  "isDigit c = (c \<in> set ''0123456789'')"

definition digit_char :: "nat \<Rightarrow> char" where
  "digit_char n = ''0123456789'' ! (n mod 10)"

fun show_nat :: "nat \<Rightarrow> string" where
  "show_nat n = (if n < 10 then [digit_char n] else show_nat (n div 10) @ [digit_char n])"

declare show_nat.simps [simp del]

text \<open>\<open>String(n)\<close> of an integer number.\<close>

definition show_int :: "int \<Rightarrow> string" where
  "show_int i = (if i < 0 then CHR ''-'' # show_nat (nat (- i)) else show_nat (nat i))"

definition digit_val :: "char \<Rightarrow> int" where
  "digit_val c = (case map_of (zip ''0123456789'' [0, 1, 2, 3, 4, 5, 6, 7, 8, 9]) c of
                    Some n \<Rightarrow> n | None \<Rightarrow> 0)"

definition int_of_digits :: "string \<Rightarrow> int" where
  "int_of_digits ds = foldl (\<lambda>acc c. 10 * acc + digit_val c) 0 ds"

section \<open>Numbers of the runtime\<close>

text \<open>
  A JavaScript number is a double: a finite value, which is kept as the rational it
  denotes, an infinity, or \<open>NaN\<close>.  A real result is rounded to the nearest double, a tie
  to the even significand, beyond the largest double to the infinity (minus zero is not
  told apart from zero).
\<close>

datatype number = Finite rat | Infinity | MinusInfinity | NaN

definition pow2 :: "int \<Rightarrow> rat" where
  "pow2 k = (if 0 \<le> k then 2 ^ nat k else 1 / 2 ^ nat (- k))"

definition pow10 :: "int \<Rightarrow> rat" where
  "pow10 k = (if 0 \<le> k then 10 ^ nat k else 1 / 10 ^ nat (- k))"

definition round_half_even :: "rat \<Rightarrow> int" where
  "round_half_even x =
     (let f = \<lfloor>x\<rfloor>; r = x - of_int f
      in if r < 1 / 2 then f else if 1 / 2 < r then f + 1
         else if even f then f else f + 1)"

text \<open>The binary exponent of a positive rational: the \<open>e\<close> with \<open>2^e \<le> a < 2^(e+1)\<close>.\<close>

definition floor_log2 :: "rat \<Rightarrow> int" where
  "floor_log2 a =
     (case quotient_of a of (n, d) \<Rightarrow>
        let e = bitlen n - bitlen d in if pow2 e \<le> a then e else e - 1)"

text \<open>
  Rounding to a double with its 53 bits of significand, exponents from -1022 (below which
  doubles are denormal, with a fixed spacing of \<open>2^-1074\<close>) to 1023.  An integer up to
  \<open>2^53\<close> is a double.
\<close>

definition to_double :: "rat \<Rightarrow> number" where
  "to_double q =
     (if q = of_int \<lfloor>q\<rfloor> \<and> \<bar>q\<bar> \<le> 9007199254740992 then Finite q
      else
        (let a = \<bar>q\<bar>;
             e = max (floor_log2 a) (- 1022);
             n = round_half_even (a / pow2 (e - 52));
             r = of_int n * pow2 (e - 52)
         in if pow2 1024 \<le> r then (if 0 < q then Infinity else MinusInfinity)
            else Finite (if 0 < q then r else - r)))"

fun js_neg :: "number \<Rightarrow> number" where
  "js_neg (Finite a) = Finite (- a)"
| "js_neg Infinity = MinusInfinity"
| "js_neg MinusInfinity = Infinity"
| "js_neg NaN = NaN"

fun js_add :: "number \<Rightarrow> number \<Rightarrow> number" where
  "js_add (Finite a) (Finite b) = to_double (a + b)"
| "js_add NaN y = NaN"
| "js_add x NaN = NaN"
| "js_add Infinity MinusInfinity = NaN"
| "js_add MinusInfinity Infinity = NaN"
| "js_add Infinity y = Infinity"
| "js_add MinusInfinity y = MinusInfinity"
| "js_add x Infinity = Infinity"
| "js_add x MinusInfinity = MinusInfinity"

definition js_sub :: "number \<Rightarrow> number \<Rightarrow> number" where
  "js_sub x y = js_add x (js_neg y)"

text \<open>The finite value of a number, as the \<open>Date\<close> constructor needs its arguments.\<close>

fun finite_value :: "number \<Rightarrow> rat option" where
  "finite_value (Finite a) = Some a"
| "finite_value x = None"

subsection \<open>\<open>Number(s)\<close> of a string\<close>

text \<open>
  The string is trimmed; the empty string is 0; a binary, octal or hexadecimal literal
  takes no sign; a decimal literal has an optional sign, digits with an optional
  fraction or a fraction alone, and an optional exponent; \<open>Infinity\<close> may be signed.
  Anything else is \<open>NaN\<close>.
\<close>

definition radix_val :: "char \<Rightarrow> int option" where
  "radix_val c =
     map_of (zip ''0123456789abcdefABCDEF''
       [0, 1, 2, 3, 4, 5, 6, 7, 8, 9, 10, 11, 12, 13, 14, 15, 10, 11, 12, 13, 14, 15]) c"

definition radix_literal :: "int \<Rightarrow> string \<Rightarrow> number" where
  "radix_literal r ds =
     (if ds \<noteq> [] \<and> list_all (\<lambda>c. case radix_val c of Some v \<Rightarrow> v < r | None \<Rightarrow> False) ds
      then to_double (of_int (foldl (\<lambda>acc c. r * acc + the (radix_val c)) 0 ds))
      else NaN)"

definition decimal_digits :: "string \<Rightarrow> int option" where
  "decimal_digits ds = (if ds \<noteq> [] \<and> list_all isDigit ds then Some (int_of_digits ds) else None)"

definition signed_integer :: "string \<Rightarrow> int option" where
  "signed_integer r =
     (case r of
        [] \<Rightarrow> None
      | c # d \<Rightarrow>
          if c = CHR ''+'' then decimal_digits d
          else if c = CHR ''-'' then map_option uminus (decimal_digits d)
          else decimal_digits r)"

definition unsigned_decimal :: "string \<Rightarrow> number" where
  "unsigned_decimal u =
     (if u = ''Infinity'' then Infinity
      else
        (let ip = takeWhile isDigit u;
             r1 = dropWhile isDigit u;
             fr = (case r1 of [] \<Rightarrow> [] | c # r \<Rightarrow> if c = CHR ''.'' then takeWhile isDigit r else []);
             r2 = (case r1 of [] \<Rightarrow> [] | c # r \<Rightarrow> if c = CHR ''.'' then dropWhile isDigit r else r1);
             ex = (case r2 of
                     [] \<Rightarrow> Some 0
                   | c # r \<Rightarrow> if c = CHR ''e'' \<or> c = CHR ''E'' then signed_integer r else None)
         in if ip = [] \<and> fr = [] then NaN
            else case ex of
                   None \<Rightarrow> NaN
                 | Some e \<Rightarrow>
                     to_double ((of_int (int_of_digits ip)
                                 + of_int (int_of_digits fr) / 10 ^ length fr) * pow10 e)))"

definition decimal_literal :: "string \<Rightarrow> number" where
  "decimal_literal t =
     (case t of
        [] \<Rightarrow> NaN
      | c # u \<Rightarrow>
          if c = CHR ''-'' then js_neg (unsigned_decimal u)
          else if c = CHR ''+'' then unsigned_decimal u
          else unsigned_decimal t)"

definition Number :: "string \<Rightarrow> number" where
  "Number s =
     (let t = trim s in
      case t of
        [] \<Rightarrow> Finite 0
      | [c] \<Rightarrow> decimal_literal t
      | z # x # ds \<Rightarrow>
          if z = CHR ''0'' \<and> (x = CHR ''x'' \<or> x = CHR ''X'') then radix_literal 16 ds
          else if z = CHR ''0'' \<and> (x = CHR ''o'' \<or> x = CHR ''O'') then radix_literal 8 ds
          else if z = CHR ''0'' \<and> (x = CHR ''b'' \<or> x = CHR ''B'') then radix_literal 2 ds
          else decimal_literal t)"

text \<open>Truncation towards zero, as the \<open>Date\<close> constructor applies to its arguments.\<close>

definition trunc :: "rat \<Rightarrow> int" where
  "trunc q = (if q \<ge> 0 then \<lfloor>q\<rfloor> else \<lceil>q\<rceil>)"

section \<open>Dates of the runtime\<close>

text \<open>
  A \<open>Date\<close> object is its time value in milliseconds on the local clock together with the
  local calendar fields its getters return.  Code that only compares dates uses the time
  value alone.
\<close>

record jsdate =
  getTime :: int
  getFullYear :: int
  getMonth :: int
  getDate :: int

text \<open>
  \<open>new Date(s)\<close> of a string is the runtime's date parser, which the language leaves to
  the engine for every format but ISO; it is a parameter, with \<open>None\<close> for an invalid date.
\<close>

type_synonym date_parser = "string \<Rightarrow> jsdate option"

definition msPerDay :: int where
  "msPerDay = 86400000"

definition DayFromYear :: "int \<Rightarrow> int" where
  "DayFromYear y =
     365 * (y - 1970) + (y - 1969) div 4 - (y - 1901) div 100 + (y - 1601) div 400"

definition InLeapYear :: "int \<Rightarrow> bool" where
  "InLeapYear y = ((y mod 4 = 0 \<and> y mod 100 \<noteq> 0) \<or> y mod 400 = 0)"

definition month_start :: "bool \<Rightarrow> int \<Rightarrow> int" where
  "month_start leap mn =
     [0, 31, 59, 90, 120, 151, 181, 212, 243, 273, 304, 334] ! nat mn
     + (if leap \<and> mn \<ge> 2 then 1 else 0)"

text \<open>\<open>MakeDay(year, month, date)\<close>: the month is counted from 0 and may overflow.\<close>

definition MakeDay :: "int \<Rightarrow> int \<Rightarrow> int \<Rightarrow> int" where
  "MakeDay year month date =
     (let ym = year + month div 12; mn = month mod 12
      in DayFromYear ym + month_start (InLeapYear ym) mn + date - 1)"

text \<open>
  \<open>new Date(year, month, day)\<close>: a \<open>NaN\<close> argument gives an invalid date, a year from 0
  to 99 means 1900 to 1999, and a time value beyond the range of \<open>Date\<close> is invalid.
\<close>

definition new_Date :: "rat option \<Rightarrow> rat option \<Rightarrow> rat option \<Rightarrow> int option" where
  "new_Date year month day =
     (case (year, month, day) of
        (Some y, Some m, Some d) \<Rightarrow>
          (let yi = trunc y;
               yr = (if 0 \<le> yi \<and> yi \<le> 99 then 1900 + yi else yi);
               t = MakeDay yr (trunc m) (trunc d) * msPerDay
           in if \<bar>t\<bar> \<le> 8640000000000000 then Some t else None)
      | _ \<Rightarrow> None)"

text \<open>\<open>d.setHours(h, m, s, ms)\<close> keeps the local day and replaces the time of day.\<close>

definition setHours :: "int \<Rightarrow> int \<Rightarrow> int \<Rightarrow> int \<Rightarrow> int \<Rightarrow> int" where
  "setHours h m s ms t =
     (t div msPerDay) * msPerDay + h * 3600000 + m * 60000 + s * 1000 + ms"

section \<open>Date normalizers\<close>

definition format_fields :: "jsdate \<Rightarrow> string" where
  "format_fields d =
     padStart2 (show_int (getDate d)) @ ''/'' @ padStart2 (show_int (getMonth d + 1))
     @ ''/'' @ show_int (getFullYear d)"

subsection \<open>\<open>ensureDDMMYYYY\<close> (StaffEvaluation.js)\<close>

definition ensure_parts :: "string \<Rightarrow> string list option" where
  "ensure_parts s =
     (if str_includes s ''/'' then Some (split CHR ''/'' s)
      else if str_includes s ''-'' then Some (split CHR ''-'' s)
      else None)"

definition ensureDDMMYYYY :: "date_parser \<Rightarrow> string option \<Rightarrow> string" where
  "ensureDDMMYYYY parse input =
     (case input of
        None \<Rightarrow> []
      | Some i \<Rightarrow>
          (let s = trim i;
               generic = (case parse s of Some d \<Rightarrow> format_fields d | None \<Rightarrow> s)
           in case ensure_parts s of
                Some [p1, p2, p3] \<Rightarrow>
                  if js_length p1 \<le> 2 \<and> js_length p2 \<le> 2 \<and> js_length p3 = 4
                  then padStart2 p1 @ ''/'' @ padStart2 p2 @ ''/'' @ p3
                  else generic
              | _ \<Rightarrow> generic))"

subsection \<open>\<open>formatDateDDMMYYYY\<close> (AuditForm.js)\<close>

text \<open>The test of \<open>/^\d{1,2}\/\d{1,2}\/\d{4}$/\<close>: digits hold no slash.\<close>

definition test_dmy :: "string \<Rightarrow> bool" where
  "test_dmy s =
     (case split CHR ''/'' s of
        [a, b, c] \<Rightarrow>
          list_all isDigit a \<and> 1 \<le> length a \<and> length a \<le> 2
          \<and> list_all isDigit b \<and> 1 \<le> length b \<and> length b \<le> 2
          \<and> list_all isDigit c \<and> length c = 4
      | _ \<Rightarrow> False)"

definition formatDateDDMMYYYY :: "date_parser \<Rightarrow> string option \<Rightarrow> string" where
  "formatDateDDMMYYYY parse dateValue =
     (case dateValue of
        None \<Rightarrow> []
      | Some v \<Rightarrow>
          if v = [] then []
          else if test_dmy (trim v) then
            (case split CHR ''/'' (trim v) of
               [day, month, year] \<Rightarrow> padStart2 day @ ''/'' @ padStart2 month @ ''/'' @ year
             | _ \<Rightarrow> v)
          else (case parse v of
                  None \<Rightarrow> v
                | Some d \<Rightarrow> format_fields d))"

subsection \<open>A date parser of the common kind\<close>

text \<open>
  An instance of the parameter: ISO dates \<open>YYYY-MM-DD\<close> as the language defines them, and
  month/day/year with slashes, a year of one or two digits read as 2000 to 2049 or 1950
  to 1999, as the engines in use read them.  The local clock is UTC.
\<close>

definition date_of_fields :: "int \<Rightarrow> int \<Rightarrow> int \<Rightarrow> jsdate option" where
  "date_of_fields y m d =
     (if 1 \<le> m \<and> m \<le> 12 \<and> 1 \<le> d \<and> d \<le> 31
      then Some \<lparr> getTime = MakeDay y (m - 1) d * msPerDay,
                  getFullYear = y, getMonth = m - 1, getDate = d \<rparr>
      else None)"

definition numeral_part :: "string \<Rightarrow> bool" where
  "numeral_part p = (p \<noteq> [] \<and> list_all isDigit p)"

definition common_parse :: date_parser where
  "common_parse s =
     (case split CHR ''-'' s of
        [y, m, d] \<Rightarrow>
          if numeral_part y \<and> numeral_part m \<and> numeral_part d
             \<and> length y = 4 \<and> length m = 2 \<and> length d = 2
          then date_of_fields (int_of_digits y) (int_of_digits m)
                 (int_of_digits d)
          else None
      | _ \<Rightarrow>
        (case split CHR ''/'' s of
           [m, d, y] \<Rightarrow>
             if numeral_part y \<and> numeral_part m \<and> numeral_part d
             then (let n = int_of_digits y;
                       year = (if length y \<le> 2 then (if n < 50 then 2000 + n else 1900 + n)
                               else n)
                   in date_of_fields year (int_of_digits m) (int_of_digits d))
             else None
         | _ \<Rightarrow> None))"

subsection \<open>Idempotence and failure, as the specification words them\<close>

text \<open>A string in the canonical form: two digits, two digits, four digits.\<close>

definition canonical :: "string \<Rightarrow> bool" where
  "canonical s =
     (length s = 10 \<and> list_all isDigit (take 2 s) \<and> s ! 2 = CHR ''/''
      \<and> list_all isDigit (take 2 (drop 3 s)) \<and> s ! 5 = CHR ''/''
      \<and> list_all isDigit (drop 6 s))"

text \<open>The three-part shape that \<open>ensureDDMMYYYY\<close> recognises without parsing.\<close>

definition three_part :: "string \<Rightarrow> bool" where
  "three_part s =
     (case ensure_parts s of
        Some [p1, p2, p3] \<Rightarrow> js_length p1 \<le> 2 \<and> js_length p2 \<le> 2 \<and> js_length p3 = 4
      | _ \<Rightarrow> False)"

text \<open>The dates a parse may yield without leaving the canonical form.\<close>

definition four_digit_year :: "jsdate \<Rightarrow> bool" where
  "four_digit_year d =
     (1 \<le> getDate d \<and> getDate d \<le> 31 \<and> 0 \<le> getMonth d \<and> getMonth d \<le> 11
      \<and> 1000 \<le> getFullYear d \<and> getFullYear d \<le> 9999)"

definition parses_to_four_digit_year :: "date_parser \<Rightarrow> string \<Rightarrow> bool" where
  "parses_to_four_digit_year parse s =
     (case parse s of None \<Rightarrow> True | Some d \<Rightarrow> four_digit_year d)"

section \<open>Range filter (RetrieveReports.js)\<close>

text \<open>
  The strings handed to these functions come from \<open>r.date ?? r.selection?.date ?? ""\<close> and
  from the two date inputs of the page; the empty string is the falsy one.  A \<open>Date\<close> is
  used through its time value only.
\<close>

definition parseDDMMYYYYtoDate :: "date_parser \<Rightarrow> string \<Rightarrow> int option" where
  "parseDDMMYYYYtoDate parse ddmmyy =
     (if ddmmyy = [] then None
      else case split CHR ''/'' ddmmyy of
             [dStr, mStr, yStr] \<Rightarrow>
               new_Date (finite_value (Number yStr))
                 (finite_value (js_sub (Number mStr) (Finite 1)))
                 (finite_value (Number dStr))
           | _ \<Rightarrow> map_option getTime (parse ddmmyy))"

definition isoToLocalDate :: "date_parser \<Rightarrow> string \<Rightarrow> int option" where
  "isoToLocalDate parse isoStr =
     (if isoStr = [] then None
      else case split CHR ''-'' isoStr of
             [yStr, mStr, dStr] \<Rightarrow>
               new_Date (finite_value (Number yStr))
                 (finite_value (js_sub (Number mStr) (Finite 1)))
                 (finite_value (Number dStr))
           | _ \<Rightarrow> map_option getTime (parse isoStr))"

text \<open>
  \<open>setHours\<close> on a bound: the result is again clipped to the range of \<open>Date\<close>, and a
  comparison with an invalid date is false.
\<close>

definition TimeClip :: "int \<Rightarrow> int option" where
  "TimeClip t = (if \<bar>t\<bar> \<le> 8640000000000000 then Some t else None)"

definition withinRange :: "date_parser \<Rightarrow> string \<Rightarrow> string \<Rightarrow> string \<Rightarrow> bool" where
  "withinRange parse dateDD fromISO toISO =
     (case parseDDMMYYYYtoDate parse dateDD of
        None \<Rightarrow> False
      | Some d \<Rightarrow>
          if fromISO = [] \<and> toISO = [] then True
          else
            (let from = (if fromISO \<noteq> [] then isoToLocalDate parse fromISO else None);
                 to = (if toISO \<noteq> [] then isoToLocalDate parse toISO else None);
                 from0 = Option.bind from (\<lambda>t. TimeClip (setHours 0 0 0 0 t));
                 to0 = Option.bind to (\<lambda>t. TimeClip (setHours 23 59 59 999 t))
             in if from \<noteq> None \<and> (case from0 of Some f \<Rightarrow> d < f | None \<Rightarrow> False) then False
                else if to \<noteq> None \<and> (case to0 of Some t \<Rightarrow> d > t | None \<Rightarrow> False) then False
                else True))"

subsection \<open>Calendar dates, as the specification words the filter\<close>

text \<open>A calendar date is a triple of year, month and day; dates are ordered by the calendar.\<close>

type_synonym cal = "int \<times> int \<times> int"

definition days_in_month :: "int \<Rightarrow> int \<Rightarrow> int" where
  "days_in_month y m =
     (if m = 2 then (if InLeapYear y then 29 else 28)
      else if m = 4 \<or> m = 6 \<or> m = 9 \<or> m = 11 then 30 else 31)"

fun valid_cal :: "cal \<Rightarrow> bool" where
  "valid_cal (y, m, d) = (1 \<le> m \<and> m \<le> 12 \<and> 1 \<le> d \<and> d \<le> days_in_month y m)"

fun cal_le :: "cal \<Rightarrow> cal \<Rightarrow> bool" where
  "cal_le (y, m, d) (y', m', d') =
     (y < y' \<or> (y = y' \<and> (m < m' \<or> (m = m' \<and> d \<le> d'))))"

definition in_range :: "cal \<Rightarrow> cal option \<Rightarrow> cal option \<Rightarrow> bool" where
  "in_range c from to =
     ((case from of None \<Rightarrow> True | Some f \<Rightarrow> cal_le f c)
      \<and> (case to of None \<Rightarrow> True | Some t \<Rightarrow> cal_le c t))"

text \<open>The calendar date written by a \<open>DD/MM/YYYY\<close> string and by an ISO \<open>YYYY-MM-DD\<close> string.\<close>

definition short_numeral :: "string \<Rightarrow> bool" where
  "short_numeral p = (list_all isDigit p \<and> 1 \<le> length p \<and> length p \<le> 2)"

definition year_numeral :: "string \<Rightarrow> bool" where
  "year_numeral p = (list_all isDigit p \<and> length p = 4)"

definition cal_of_dmy :: "string \<Rightarrow> cal option" where
  "cal_of_dmy s =
     (case split CHR ''/'' s of
        [d, m, y] \<Rightarrow>
          if short_numeral d \<and> short_numeral m \<and> year_numeral y
          then Some (int_of_digits y, int_of_digits m, int_of_digits d)
          else None
      | _ \<Rightarrow> None)"

definition cal_of_iso :: "string \<Rightarrow> cal option" where
  "cal_of_iso s =
     (case split CHR ''-'' s of
        [y, m, d] \<Rightarrow>
          if short_numeral d \<and> short_numeral m \<and> year_numeral y
          then Some (int_of_digits y, int_of_digits m, int_of_digits d)
          else None
      | _ \<Rightarrow> None)"

text \<open>A date of the calendar from the year 100 on, where the constructor takes the year as it is.\<close>

fun plain_year :: "cal \<Rightarrow> bool" where
  "plain_year (y, m, d) = (100 \<le> y \<and> valid_cal (y, m, d))"

text \<open>A bound is absent (the empty string) or an ISO date.\<close>

definition bound_is :: "string \<Rightarrow> cal option \<Rightarrow> bool" where
  "bound_is s b =
     (case b of None \<Rightarrow> s = [] | Some c \<Rightarrow> cal_of_iso s = Some c \<and> plain_year c)"

subsection \<open>Date strings without a reading\<close>







section \<open>Records of the store and their aggregation (RetrieveReports.js)\<close>

text \<open>
  A document read from the store is an object whose fields may be missing.  A score-like
  field holds a number or a string; an object with string values (the ratings) is the
  list of its entries in insertion order, read with \<open>map_of\<close>.
\<close>

datatype jsval = JNum number | JStr string

fun to_number :: "jsval \<Rightarrow> number" where
  "to_number (JNum n) = n"
| "to_number (JStr s) = Number s"

record selection_rec =
  sel_branch :: "string option"
  sel_city :: "string option"
  sel_auditor :: "string option"
  sel_date :: "string option"

record evaluation =
  doc_id :: "string option"
  staffName :: "string option"
  empCode :: "string option"
  designation :: "string option"
  totalMarks :: "jsval option"
  grade :: "string option"
  ratings :: "(string \<times> string) list option"
  selection :: "selection_rec option"
  doc_scoreOutOf100 :: "jsval option"
  createdAt_seconds :: "int option"
  timestamp_seconds :: "int option"
  doc_total :: "jsval option"
  branch :: "string option"
  city :: "string option"
  date :: "string option"



text \<open>\<open>a || b\<close> on strings: the first one that is present and not empty.\<close>

definition truthy :: "string option \<Rightarrow> bool" where
  "truthy v = (case v of None \<Rightarrow> False | Some s \<Rightarrow> s \<noteq> [])"

definition or_else :: "string option \<Rightarrow> string option \<Rightarrow> string option" where
  "or_else a b = (if truthy a then a else b)"

text \<open>\<open>v ?? ""\<close>.\<close>

definition js_or_empty :: "string option \<Rightarrow> string" where
  "js_or_empty v = (case v of Some s \<Rightarrow> s | None \<Rightarrow> [])"

subsection \<open>\<open>avgScoreToLabel\<close>\<close>

fun js_ge :: "number \<Rightarrow> rat \<Rightarrow> bool" where
  "js_ge (Finite a) b = (a \<ge> b)"
| "js_ge Infinity b = True"
| "js_ge MinusInfinity b = False"
| "js_ge NaN b = False"

definition avgScoreToLabel :: "number option \<Rightarrow> string" where
  "avgScoreToLabel n =
     (case n of
        None \<Rightarrow> ''-''
      | Some s \<Rightarrow>
          if s = NaN then ''-''
          else if js_ge s 90 then ''Excellent''
          else if js_ge s 75 then ''Good''
          else if js_ge s 60 then ''Average''
          else ''Poor'')"

subsection \<open>\<open>dedupeById\<close>\<close>

text \<open>
  \<open>JSON.stringify(item)\<close> stands in for a missing id; it is a parameter \<open>json\<close>.  The loop
  carries the set of identities seen and the output.
\<close>

definition ident :: "(evaluation \<Rightarrow> string) \<Rightarrow> evaluation \<Rightarrow> string" where
  "ident json item = (case doc_id item of Some i \<Rightarrow> i | None \<Rightarrow> json item)"

definition dedupe_step ::
  "(evaluation \<Rightarrow> string) \<Rightarrow> evaluation \<Rightarrow> string set \<times> evaluation list
   \<Rightarrow> string set \<times> evaluation list" where
  "dedupe_step json item st =
     (case st of (seen, out) \<Rightarrow>
        if ident json item \<notin> seen then (insert (ident json item) seen, out @ [item])
        else (seen, out))"

definition dedupeById :: "(evaluation \<Rightarrow> string) \<Rightarrow> evaluation list \<Rightarrow> evaluation list" where
  "dedupeById json arr = snd (fold (dedupe_step json) arr ({}, []))"

text \<open>Deduplication as the specification words it: the first record of every identity.\<close>

fun first_by_id ::
  "(evaluation \<Rightarrow> string) \<Rightarrow> string set \<Rightarrow> evaluation list \<Rightarrow> evaluation list" where
  "first_by_id json seen [] = []"
| "first_by_id json seen (x # xs) =
     (if ident json x \<in> seen then first_by_id json seen xs
      else x # first_by_id json (insert (ident json x) seen) xs)"

subsection \<open>The range-filtered query of \<open>runQuery\<close>\<close>


definition unit_rDate :: "evaluation \<Rightarrow> string" where
  "unit_rDate r =
     (case nullish (date r) (Option.bind (selection r) sel_date) of
        Some s \<Rightarrow> s | None \<Rightarrow> [])"


subsection \<open>\<open>computeParameterStats\<close>\<close>

definition endsWith :: "string \<Rightarrow> string \<Rightarrow> bool" where
  "endsWith s suffix = (length suffix \<le> length s \<and> drop (length s - length suffix) s = suffix)"

definition collectParameterNames :: "evaluation list \<Rightarrow> string list" where
  "collectParameterNames docs =
     fold (\<lambda>d names.
        fold (\<lambda>k names. if endsWith k ''_remarks'' \<or> k \<in> set names then names
                          else names @ [k])
          (map fst (case ratings d of Some r \<Rightarrow> r | None \<Rightarrow> [])) names)
       docs []"

record stat =
  Excellent :: nat
  Good :: nat
  Average :: nat
  Poor :: nat
  total_rated :: nat

definition count_rating :: "string \<Rightarrow> stat \<Rightarrow> stat" where
  "count_rating v s =
     (if v = ''Excellent'' then s\<lparr> Excellent := Excellent s + 1, total_rated := total_rated s + 1 \<rparr>
      else if v = ''Good'' then s\<lparr> Good := Good s + 1, total_rated := total_rated s + 1 \<rparr>
      else if v = ''Average'' then s\<lparr> Average := Average s + 1, total_rated := total_rated s + 1 \<rparr>
      else if v = ''Poor'' then s\<lparr> Poor := Poor s + 1, total_rated := total_rated s + 1 \<rparr>
      else s)"

definition stats_step :: "evaluation \<Rightarrow> (string \<times> stat) list \<Rightarrow> (string \<times> stat) list" where
  "stats_step d stats =
     map (\<lambda>(p, s).
        case map_of (case ratings d of Some r \<Rightarrow> r | None \<Rightarrow> []) p of
          Some v \<Rightarrow> (p, count_rating v s)
        | None \<Rightarrow> (p, s)) stats"

definition computeParameterStats :: "evaluation list \<Rightarrow> string list \<times> (string \<times> stat) list" where
  "computeParameterStats docs =
     (let names = collectParameterNames docs;
          zero = \<lparr> Excellent = 0, Good = 0, Average = 0, Poor = 0, total_rated = 0 \<rparr>
      in (names, fold stats_step docs (map (\<lambda>p. (p, zero)) names)))"

subsection \<open>\<open>employeesAggregated\<close>\<close>

text \<open>
  The grouping \<open>Map\<close> is the list of its entries in insertion order.  A record without
  code and name gets a key from \<open>Math.random\<close>: the random strings are a parameter
  \<open>rnd\<close>, drawn in order.
\<close>

record emp_group =
  g_empCode :: string
  g_staffName :: string
  recs :: "evaluation list"

record emp_row =
  row_empCode :: string
  row_staffName :: string
  row_count :: nat
  row_avg :: "number option"
  row_label :: string
  row_branch :: string
  row_city :: string

definition trimmed :: "string option \<Rightarrow> string" where
  "trimmed v = (if truthy v then trim (the v) else [])"

definition base_key :: "evaluation \<Rightarrow> string" where
  "base_key r =
     (let code = trimmed (empCode r); name = trimmed (staffName r)
      in toLowerCase (if code \<noteq> [] then code else name))"

definition group_step ::
  "(nat \<Rightarrow> string) \<Rightarrow> evaluation \<Rightarrow> (string \<times> emp_group) list \<times> nat
   \<Rightarrow> (string \<times> emp_group) list \<times> nat" where
  "group_step rnd r st =
     (case st of (groups, n) \<Rightarrow>
        let key = (if base_key r \<noteq> [] then base_key r else rnd n);
            n' = (if base_key r \<noteq> [] then n else n + 1);
            groups' = (if key \<in> fst ` set groups then groups
                       else groups @ [(key, \<lparr> g_empCode = trimmed (empCode r),
                                              g_staffName = trimmed (staffName r),
                                              recs = [] \<rparr>)])
        in (map (\<lambda>(k, g). if k = key then (k, g\<lparr> recs := recs g @ [r] \<rparr>) else (k, g)) groups',
            n'))"

text \<open>A stable sort by a comparator, given as \<open>le a b\<close> for \<open>compare(a, b) \<le> 0\<close>.\<close>

fun insert_by :: "('a \<Rightarrow> 'a \<Rightarrow> bool) \<Rightarrow> 'a \<Rightarrow> 'a list \<Rightarrow> 'a list" where
  "insert_by le x [] = [x]"
| "insert_by le x (y # ys) = (if le x y then x # y # ys else y # insert_by le x ys)"

definition sort_by :: "('a \<Rightarrow> 'a \<Rightarrow> bool) \<Rightarrow> 'a list \<Rightarrow> 'a list" where
  "sort_by le xs = foldr (insert_by le) xs []"

definition seconds :: "evaluation \<Rightarrow> int" where
  "seconds a =
     (case timestamp_seconds a of
        Some t \<Rightarrow> if t \<noteq> 0 then t
                  else (case createdAt_seconds a of Some c \<Rightarrow> c | None \<Rightarrow> 0)
      | None \<Rightarrow> (case createdAt_seconds a of Some c \<Rightarrow> c | None \<Rightarrow> 0))"

definition numeric_score :: "evaluation \<Rightarrow> number option" where
  "numeric_score d =
     (case nullish (doc_scoreOutOf100 d) (nullish (totalMarks d) (doc_total d)) of
        None \<Rightarrow> None
      | Some s \<Rightarrow> if to_number s \<noteq> NaN then Some (to_number s) else None)"

text \<open>Division of a number by a count, which is positive where it is used.\<close>

fun js_div_count :: "number \<Rightarrow> nat \<Rightarrow> number" where
  "js_div_count (Finite a) n = to_double (a / of_nat n)"
| "js_div_count x n = x"

definition average :: "number list \<Rightarrow> number option" where
  "average numericScores =
     (if length numericScores \<noteq> 0
      then Some (js_div_count (foldl js_add (Finite 0) numericScores) (length numericScores))
      else None)"

definition text_or_dash :: "string option \<Rightarrow> string" where
  "text_or_dash v = (if truthy v then the v else ''-'')"

definition row_of :: "emp_group \<Rightarrow> emp_row" where
  "row_of val =
     (let sorted = sort_by (\<lambda>a b. seconds b - seconds a \<le> 0) (recs val);
          latest = (case sorted of x # _ \<Rightarrow> x | [] \<Rightarrow> hd (recs val));
          avg = average (List.map_filter numeric_score (recs val))
      in \<lparr> row_empCode = g_empCode val,
           row_staffName = g_staffName val,
           row_count = length (recs val),
           row_avg = avg,
           row_label = (if avg \<noteq> None then avgScoreToLabel avg else ''-''),
           row_branch = text_or_dash
             (or_else (Option.bind (selection latest) sel_branch) (branch latest)),
           row_city = text_or_dash
             (or_else (Option.bind (selection latest) sel_city) (city latest)) \<rparr>)"

text \<open>\<open>localeCompare\<close> is the runtime's collation, a parameter.\<close>

definition employeesAggregated ::
  "(string \<Rightarrow> string \<Rightarrow> int) \<Rightarrow> (nat \<Rightarrow> string) \<Rightarrow> evaluation list \<Rightarrow> emp_row list" where
  "employeesAggregated localeCompare rnd results =
     (if results = [] then []
      else
        (let groups = fst (fold (group_step rnd) results ([], 0));
             out = map (\<lambda>(k, val). row_of val) groups
         in sort_by (\<lambda>a b. localeCompare (row_staffName a) (row_staffName b) \<le> 0) out))"

subsection \<open>Grouping, as the specification words it\<close>

text \<open>
  The scores the Score Engine writes are whole numbers from 0 to 100.  Their arithmetic
  mean is a rational; as a JavaScript number it is the nearest double.
\<close>

definition whole_score :: "evaluation \<Rightarrow> int option" where
  "whole_score r =
     (case numeric_score r of
        Some (Finite q) \<Rightarrow> if q = of_int \<lfloor>q\<rfloor> \<and> 0 \<le> q \<and> q \<le> 100 then Some \<lfloor>q\<rfloor> else None
      | _ \<Rightarrow> None)"

definition mean_score :: "evaluation list \<Rightarrow> number option" where
  "mean_score g =
     (let scores = List.map_filter whole_score g
      in if scores = [] then None
         else Some (to_double (of_int (sum_list scores) / of_nat (length scores))))"

definition spec_label :: "number option \<Rightarrow> string" where
  "spec_label m =
     (case m of
        Some (Finite a) \<Rightarrow> if a \<ge> 90 then ''Excellent'' else if a \<ge> 75 then ''Good''
                           else if a \<ge> 60 then ''Average'' else ''Poor''
      | _ \<Rightarrow> ''-'')"

definition spec_group :: "evaluation list \<Rightarrow> string \<Rightarrow> nat \<times> number option \<times> string" where
  "spec_group rs k =
     (let g = filter (\<lambda>r. base_key r = k) rs
      in (length g, mean_score g, spec_label (mean_score g)))"

text \<open>The whole aggregation of a result list: employee rows and parameter statistics.\<close>

definition aggregates ::
  "(string \<Rightarrow> string \<Rightarrow> int) \<Rightarrow> (nat \<Rightarrow> string) \<Rightarrow> (evaluation \<Rightarrow> string)
   \<Rightarrow> evaluation list \<Rightarrow> emp_row list \<times> string list \<times> (string \<times> stat) list" where
  "aggregates localeCompare rnd json docs =
     (let results = dedupeById json docs
      in (employeesAggregated localeCompare rnd results, computeParameterStats results))"

section \<open>Submission and the uniqueness guard\<close>

text \<open>
  The record store holds the two collections.  A call to the store may be rejected: the
  faults of an attempt say, for the query and for the write, whether the call fails and
  with which message.  An attempt ends with the validation errors shown in the form or
  with one alert.
\<close>

record breakdown =
  sb_checklist :: int
  sb_observations :: int
  sb_maintenance :: int
  sb_totalBeforeClamp :: int
  sb_maxChecklist :: int

record unit_audit =
  ua_kitchen :: answers
  ua_hygiene :: answers
  ua_foodSafety :: answers
  ua_observations :: string
  ua_maintenance :: string
  ua_actionPlan :: string
  ua_date :: string
  ua_auditor :: "string option"
  ua_branch :: "string option"
  ua_city :: "string option"
  ua_scoreOutOf100 :: int
  ua_scoreBreakdown :: breakdown
  ua_timestamp :: int

record store =
  unitAudits :: "unit_audit list"
  staffEvaluations :: "evaluation list"

record faults =
  getDocs_error :: "string option"
  addDoc_error :: "string option"

datatype outcome = Errors "string list" | Alert string

subsection \<open>Unit audit (AuditForm.js)\<close>

record formData =
  kitchen :: answers
  hygiene :: answers
  foodSafety :: answers
  observationsPreset :: string
  observationsManual :: string
  maintenancePreset :: string
  maintenanceManual :: string
  actionPreset :: string
  actionManual :: string

text \<open>The marks that open the alerts, as the bytes of the source files.\<close>

definition dquote :: string where
  "dquote = [CHR 0x22]"

definition cross_mark_audit :: string where
  "cross_mark_audit = [CHR 0xE2, CHR 0x80, CHR 0x9A, CHR 0xC3, CHR 0xB9, CHR 0xC3, CHR 0xA5]"

definition check_mark_audit :: string where
  "check_mark_audit = [CHR 0xE2, CHR 0x80, CHR 0x9A, CHR 0xC3, CHR 0xBA, CHR 0xC3, CHR 0x96]"

definition cross_mark :: string where
  "cross_mark = [CHR 0xE2, CHR 0x9D, CHR 0x8C]"

definition check_mark :: string where
  "check_mark = [CHR 0xE2, CHR 0x9C, CHR 0x85]"

definition defaultSelection :: "selection_rec \<Rightarrow> selection_rec" where
  "defaultSelection sel =
     sel\<lparr> sel_auditor := (case sel_auditor sel of None \<Rightarrow> Some ''Kumar Kannaiyan''
                                                  | Some a \<Rightarrow> Some a) \<rparr>"

definition checkMissing :: "string list \<Rightarrow> answers \<Rightarrow> string \<Rightarrow> string list" where
  "checkMissing paramsArray section title =
     (let missing = filter (\<lambda>label. \<not> truthy (section label)) paramsArray
      in if length missing > 0
         then [title @ '' - '' @ show_nat (length missing) @ '' unanswered'']
         else [])"

definition remarkCheck :: "string \<Rightarrow> string \<Rightarrow> string \<Rightarrow> string list" where
  "remarkCheck label preset manual =
     (if preset = [] \<or> preset = ''-- Select --'' then
        (if manual = [] \<or> trim manual = []
         then [label @ '' is required (choose option or enter manually)''] else [])
      else if str_includes (toLowerCase preset) ''other'' \<and> (manual = [] \<or> trim manual = [])
      then [label @ '': you chose '' @ dquote @ ''Other (manual)'' @ dquote
            @ '' but did not enter text'']
      else [])"

definition validate :: "selection_rec \<Rightarrow> formData \<Rightarrow> string list" where
  "validate sel form =
     (if \<not> truthy (sel_auditor sel) then [''Auditor is required''] else [])
     @ (if \<not> truthy (sel_date sel) then [''Date is required''] else [])
     @ (if \<not> truthy (sel_branch sel) then [''Branch is required''] else [])
     @ (if \<not> truthy (sel_city sel) then [''City is required''] else [])
     @ checkMissing kitchenParams (kitchen form) ''Kitchen Cleanliness & Maintenance''
     @ checkMissing hygieneParams (hygiene form) ''Personal Hygiene''
     @ checkMissing foodSafetyParams (foodSafety form) ''Food Safety & Storage''
     @ remarkCheck ''Observations'' (observationsPreset form) (observationsManual form)
     @ remarkCheck ''Maintenance / Suggestions'' (maintenancePreset form) (maintenanceManual form)
     @ remarkCheck ''Action Plan / Corrective Measures'' (actionPreset form) (actionManual form)"

definition getRemarkText :: "string \<Rightarrow> string \<Rightarrow> string" where
  "getRemarkText preset manual =
     (if str_includes (toLowerCase preset) ''other''
      then (if trim manual \<noteq> [] then trim manual else ''-'')
      else if preset = ''-- Select --'' then ''-''
      else preset)"

definition audit_payload :: "date_parser \<Rightarrow> int \<Rightarrow> selection_rec \<Rightarrow> formData \<Rightarrow> unit_audit" where
  "audit_payload parse now sel form =
     (let scores = computeScores (Some (kitchen form)) (Some (hygiene form))
                     (Some (foodSafety form))
                     (observationsPreset form) (observationsManual form)
                     (maintenancePreset form) (maintenanceManual form)
      in \<lparr> ua_kitchen = kitchen form,
           ua_hygiene = hygiene form,
           ua_foodSafety = foodSafety form,
           ua_observations = getRemarkText (observationsPreset form) (observationsManual form),
           ua_maintenance = getRemarkText (maintenancePreset form) (maintenanceManual form),
           ua_actionPlan = getRemarkText (actionPreset form) (actionManual form),
           ua_date = formatDateDDMMYYYY parse (sel_date sel),
           ua_auditor = sel_auditor sel,
           ua_branch = sel_branch sel,
           ua_city = sel_city sel,
           ua_scoreOutOf100 = scoreOutOf100 scores,
           ua_scoreBreakdown =
             \<lparr> sb_checklist = checklistRaw scores, sb_observations = obsScore scores,
               sb_maintenance = maintScore scores, sb_totalBeforeClamp = rawScore scores,
               sb_maxChecklist = maxChecklist scores \<rparr>,
           ua_timestamp = now \<rparr>)"

definition audit_conflict_message :: "unit_audit \<Rightarrow> string" where
  "audit_conflict_message payload =
     cross_mark_audit @ '' A Unit Audit for branch '' @ dquote @ js_String (ua_branch payload)
     @ dquote @ '' on '' @ ua_date payload
     @ '' already exists. Only one audit per branch per day is allowed.''"

text \<open>\<open>handleSubmit\<close> of the audit form: the store after the attempt, and what the user sees.\<close>

definition handleSubmit_audit ::
  "date_parser \<Rightarrow> int \<Rightarrow> faults \<Rightarrow> selection_rec \<Rightarrow> formData \<Rightarrow> store \<Rightarrow> store \<times> outcome" where
  "handleSubmit_audit parse now flt selected form st =
     (let sel = defaultSelection selected; errs = validate sel form
      in if errs \<noteq> [] then (st, Errors errs)
         else
           (let payload = audit_payload parse now sel form
            in case getDocs_error flt of
                 Some msg \<Rightarrow> (st, Alert (cross_mark_audit @ '' Error saving data: '' @ msg))
               | None \<Rightarrow>
                   (let snap = filter (\<lambda>a. ua_branch a = ua_branch payload
                                            \<and> ua_date a = ua_date payload) (unitAudits st)
                    in if snap \<noteq> [] then (st, Alert (audit_conflict_message payload))
                       else (case addDoc_error flt of
                               Some msg \<Rightarrow>
                                 (st, Alert (cross_mark_audit @ '' Error saving data: '' @ msg))
                             | None \<Rightarrow>
                                 (st\<lparr> unitAudits := unitAudits st @ [payload] \<rparr>,
                                  Alert (check_mark_audit @ '' Audit submitted successfully! Score: ''
                                         @ show_int (ua_scoreOutOf100 payload) @ '' / 100''))))))"

subsection \<open>Staff evaluation (StaffEvaluation.js)\<close>

record staff_form =
  f_staffName :: string
  f_empCode :: string
  f_designation :: string
  f_totalMarks :: string
  f_grade :: string

fun join :: "string \<Rightarrow> string list \<Rightarrow> string" where
  "join sep [] = []"
| "join sep [x] = x"
| "join sep (x # y # zs) = x @ sep @ join sep (y # zs)"

definition validate_staff :: "staff_form \<Rightarrow> (string \<times> string) list \<Rightarrow> string list" where
  "validate_staff form rts =
     (if trim (f_staffName form) = [] then [''Staff Name is required''] else [])
     @ (if trim (f_empCode form) = [] then [''Emp Code is required''] else [])
     @ (let missing = filter (\<lambda>p. \<not> truthy (map_of rts p)) params
        in if length missing \<noteq> 0 then [''Please rate: '' @ join '', '' missing] else [])"

text \<open>
  \<open>checkDuplicateForDate\<close>: a failed query is caught, logged, and answered with
  \<open>false\<close>.
\<close>

definition checkDuplicateForDate :: "faults \<Rightarrow> store \<Rightarrow> string \<Rightarrow> string \<Rightarrow> bool" where
  "checkDuplicateForDate flt st code dateDD =
     (case getDocs_error flt of
        Some msg \<Rightarrow> False
      | None \<Rightarrow>
          take 1 (filter (\<lambda>d. empCode d = Some code
                              \<and> Option.bind (selection d) sel_date = Some dateDD)
                    (staffEvaluations st)) \<noteq> [])"

text \<open>The store gives a new document its id; here the id is the document's position.\<close>

definition staff_payload ::
  "date_parser \<Rightarrow> int \<Rightarrow> selection_rec \<Rightarrow> staff_form \<Rightarrow> (string \<times> string) list
   \<Rightarrow> store \<Rightarrow> evaluation" where
  "staff_payload parse now sel form rts st =
     (let finalScore = (case computeStaffScore (Some (map_of rts)) of Some n \<Rightarrow> n | None \<Rightarrow> 0);
          finalGrade = (if f_grade form \<noteq> [] then f_grade form else scoreToGrade finalScore)
      in \<lparr> doc_id = Some (show_nat (length (staffEvaluations st))),
           staffName = Some (f_staffName form),
           empCode = Some (f_empCode form),
           designation = Some (f_designation form),
           totalMarks = Some (JStr (show_int finalScore)),
           grade = Some finalGrade,
           ratings = Some rts,
           selection = Some \<lparr> sel_branch = Some (js_or_empty (sel_branch sel)),
                              sel_city = Some (js_or_empty (sel_city sel)),
                              sel_auditor = Some (js_or_empty (sel_auditor sel)),
                              sel_date = Some (ensureDDMMYYYY parse (sel_date sel)) \<rparr>,
           doc_scoreOutOf100 = Some (JNum (Finite (of_int finalScore))),
           createdAt_seconds = Some now,
           timestamp_seconds = None,
           doc_total = None,
           branch = None,
           city = None,
           date = None \<rparr>)"

definition staff_conflict_message :: "string \<Rightarrow> string \<Rightarrow> string" where
  "staff_conflict_message code dateDD =
     cross_mark @ '' An evaluation for Emp Code '' @ dquote @ code @ dquote
     @ '' already exists for '' @ dateDD
     @ ''. Only one evaluation per staff per day is allowed.''"

definition handleSubmit_staff ::
  "date_parser \<Rightarrow> int \<Rightarrow> faults \<Rightarrow> selection_rec \<Rightarrow> staff_form \<Rightarrow> (string \<times> string) list
   \<Rightarrow> store \<Rightarrow> store \<times> outcome" where
  "handleSubmit_staff parse now flt sel form rts st =
     (let errs = validate_staff form rts
      in if errs \<noteq> [] then (st, Errors errs)
         else
           (let dateDD = ensureDDMMYYYY parse (sel_date sel)
            in if dateDD = []
               then (st, Alert ''Date missing from selection - please re-select branch/date.'')
               else
                 (let code = trim (f_empCode form);
                      duplicate = checkDuplicateForDate flt st code dateDD
                  in if duplicate then (st, Alert (staff_conflict_message code dateDD))
                     else (case addDoc_error flt of
                             Some msg \<Rightarrow> (st, Alert (cross_mark @ '' Error saving: '' @ msg))
                           | None \<Rightarrow>
                               (st\<lparr> staffEvaluations :=
                                      staffEvaluations st
                                      @ [staff_payload parse now sel form rts st] \<rparr>,
                                Alert (check_mark @ '' Staff Evaluation submitted!''))))))"

subsection \<open>The uniqueness invariant, as the specification words it\<close>

definition audit_key :: "unit_audit \<Rightarrow> string option \<times> string" where
  "audit_key a = (ua_branch a, ua_date a)"

definition staff_key :: "evaluation \<Rightarrow> string option \<times> string option" where
  "staff_key d = (empCode d, Option.bind (selection d) sel_date)"

section \<open>Properties\<close>

subsection \<open>Strings\<close>

lemma token_len_pos:
  assumes "token_len toks s \<noteq> 0"
  shows "\<exists>t \<in> set toks. t \<noteq> [] \<and> length t = token_len toks s \<and> take (length t) s = t"
proof -
  from assms obtain t where f: "find (\<lambda>t. take (length t) s = t) toks = Some t"
    and l: "length t = token_len toks s"
    by (auto simp: token_len_def split: option.splits)
  from f have "t \<in> set toks" "take (length t) s = t"
    by (auto simp: find_Some_iff in_set_conv_nth)
  moreover have "t \<noteq> []" using l assms by auto
  ultimately show ?thesis using l by blast
qed

lemma token_len_zero:
  assumes "token_len toks s = 0" "[] \<notin> set toks" "t \<in> set toks"
  shows "take (length t) s \<noteq> t"
proof (cases "find (\<lambda>t. take (length t) s = t) toks")
  case None
  then show ?thesis using assms(3) by (auto simp: find_None_iff)
next
  case (Some u)
  then have "u \<in> set toks" by (auto simp: find_Some_iff in_set_conv_nth)
  moreover have "length u = 0" using assms(1) Some by (simp add: token_len_def)
  ultimately show ?thesis using assms(2) by auto
qed

lemma token_len_zeroI:
  assumes "\<And>t. t \<in> set toks \<Longrightarrow> take (length t) s \<noteq> t"
  shows "token_len toks s = 0"
proof -
  have "find (\<lambda>t. take (length t) s = t) toks = None"
    using assms by (auto simp: find_None_iff)
  then show ?thesis by (simp add: token_len_def)
qed

lemma strip_id: "token_len toks s = 0 \<Longrightarrow> strip toks s = s"
  by (subst strip.simps) simp

lemma strip_decomp: "\<exists>pre. s = pre @ strip toks s \<and> set pre \<subseteq> set (concat toks)"
proof (induction toks s rule: strip.induct)
  case (1 toks s)
  show ?case
  proof (cases "token_len toks s = 0")
    case True
    then show ?thesis by (simp add: strip_id)
  next
    case False
    from token_len_pos [OF False] obtain t where t: "t \<in> set toks"
      "length t = token_len toks s" "take (length t) s = t" by blast
    from 1 [OF False] obtain pre where pre: "drop (token_len toks s) s
        = pre @ strip toks (drop (token_len toks s) s)" "set pre \<subseteq> set (concat toks)"
      by blast
    have s: "strip toks s = strip toks (drop (token_len toks s) s)"
      using False by (subst strip.simps) simp
    have "s = t @ drop (token_len toks s) s" using t by (metis append_take_drop_id)
    then have "s = (t @ pre) @ strip toks s" using pre(1) s by simp
    moreover have "set (t @ pre) \<subseteq> set (concat toks)" using t(1) pre(2) by auto
    ultimately show ?thesis by blast
  qed
qed

lemma strip_clean: "[] \<notin> set toks \<Longrightarrow> token_len toks (strip toks s) = 0"
proof (induction toks s rule: strip.induct)
  case (1 toks s)
  show ?case
  proof (cases "token_len toks s = 0")
    case True
    then show ?thesis by (simp add: strip_id)
  next
    case False
    have "strip toks s = strip toks (drop (token_len toks s) s)"
      using False by (subst strip.simps) simp
    then show ?thesis using 1 False by simp
  qed
qed

lemma ws_tokens_nonempty: "[] \<notin> set ws_tokens" "[] \<notin> set (map rev ws_tokens)"
  by (simp_all add: ws_tokens_def)

lemma set_concat_rev: "set (concat (map rev toks)) = set (concat toks)"
  by auto

lemma trim_decomp:
  "\<exists>a b. s = a @ trim s @ b \<and> set a \<subseteq> set (concat ws_tokens) \<and> set b \<subseteq> set (concat ws_tokens)"
proof -
  let ?A = "strip ws_tokens s"
  obtain a where a: "s = a @ ?A" "set a \<subseteq> set (concat ws_tokens)"
    using strip_decomp [of s ws_tokens] by blast
  obtain p where p: "rev ?A = p @ strip (map rev ws_tokens) (rev ?A)"
    "set p \<subseteq> set (concat (map rev ws_tokens))"
    using strip_decomp [of "rev ?A" "map rev ws_tokens"] by blast
  have "?A = rev (rev ?A)" by simp
  also have "\<dots> = trim s @ rev p" by (subst p(1)) (simp add: trim_def)
  finally have "s = a @ trim s @ rev p" using a(1) by simp
  moreover have "set (rev p) \<subseteq> set (concat ws_tokens)" using p(2) by (simp only: set_concat_rev set_rev)
  ultimately show ?thesis using a(2) by blast
qed

lemma trim_clean: "clean_ends (trim s)"
proof -
  let ?A = "strip ws_tokens s"
  let ?B = "strip (map rev ws_tokens) (rev ?A)"
  have t: "trim s = rev ?B" by (simp add: trim_def)
  have b: "token_len (map rev ws_tokens) (rev (trim s)) = 0"
    using strip_clean [OF ws_tokens_nonempty(2), of "rev ?A"] by (simp add: t)
  obtain p where p: "rev ?A = p @ ?B" using strip_decomp [of "rev ?A" "map rev ws_tokens"] by blast
  then have A: "?A = trim s @ rev p" by (metis rev_append rev_rev_ident t)
  have a: "token_len ws_tokens ?A = 0" by (rule strip_clean [OF ws_tokens_nonempty(1)])
  have "token_len ws_tokens (trim s) = 0"
  proof (rule token_len_zeroI)
    fix u assume u: "u \<in> set ws_tokens"
    show "take (length u) (trim s) \<noteq> u"
    proof
      assume e: "take (length u) (trim s) = u"
      have "length (take (length u) (trim s)) \<le> length (trim s)" by simp
      then have "length u \<le> length (trim s)" by (simp only: e)
      then have "take (length u) ?A = u" by (subst A) (simp add: e)
      then show False using token_len_zero [OF a ws_tokens_nonempty(1) u] by simp
    qed
  qed
  then show ?thesis using b by (simp add: clean_ends_def)
qed

lemma trim_id: "clean_ends s \<Longrightarrow> trim s = s"
  by (simp add: clean_ends_def trim_def strip_id)

lemma trim_trim: "trim (trim s) = trim s"
  by (rule trim_id) (rule trim_clean)

lemma trim_Nil: "trim [] = []"
  by (rule trim_id) (simp add: clean_ends_def token_len_def ws_tokens_def)

lemma str_includes_iff: "str_includes s n \<longleftrightarrow> (\<exists>a b. s = a @ n @ b)"
proof (induction s)
  case Nil
  then show ?case by auto
next
  case (Cons c cs)
  show ?case
  proof
    assume "str_includes (c # cs) n"
    then consider "take (length n) (c # cs) = n" | "str_includes cs n" by auto
    then show "\<exists>a b. c # cs = a @ n @ b"
    proof cases
      case 1
      then have "c # cs = [] @ n @ drop (length n) (c # cs)"
        by (metis append_Nil append_take_drop_id)
      then show ?thesis by blast
    next
      case 2
      then obtain a b where "cs = a @ n @ b" using Cons.IH by blast
      then have "c # cs = (c # a) @ n @ b" by simp
      then show ?thesis by blast
    qed
  next
    assume "\<exists>a b. c # cs = a @ n @ b"
    then obtain a b where ab: "c # cs = a @ n @ b" by blast
    show "str_includes (c # cs) n"
    proof (cases a)
      case Nil
      then have "take (length n) (c # cs) = n" using ab by simp
      then show ?thesis by simp
    next
      case (Cons x a')
      then have "cs = a' @ n @ b" using ab by simp
      then show ?thesis using Cons.IH by auto
    qed
  qed
qed

lemma ws_bytes_table:
  "list_all (\<lambda>c. lower_char c = c \<and> c \<noteq> CHR ''n'' \<and> c \<noteq> CHR ''e'') (concat ws_tokens)"
  by code_simp

lemma ws_bytes_lower:
  assumes "set a \<subseteq> set (concat ws_tokens)"
  shows "toLowerCase a = a"
proof -
  have "lower_char c = c" if "c \<in> set a" for c
    using ws_bytes_table assms that unfolding list_all_iff by blast
  then show ?thesis unfolding toLowerCase_def by (rule map_idI)
qed

lemma includes_skip:
  assumes "set a \<subseteq> W" "h \<notin> W"
  shows "str_includes (a @ r) (h # t) = str_includes r (h # t)"
  using assms(1)
proof (induction a)
  case Nil
  show ?case by simp
next
  case (Cons x a)
  then have "x \<noteq> h" using assms(2) by auto
  then show ?case using Cons by simp
qed

lemma includes_rev: "str_includes (rev s) (rev n) = str_includes s n"
proof -
  have "(\<exists>a b. rev s = a @ rev n @ b) = (\<exists>a b. s = a @ n @ b)"
  proof
    assume "\<exists>a b. rev s = a @ rev n @ b"
    then obtain a b where "rev s = a @ rev n @ b" by blast
    then have "s = rev b @ n @ rev a" by (metis append.assoc rev_append rev_rev_ident)
    then show "\<exists>a b. s = a @ n @ b" by blast
  next
    assume "\<exists>a b. s = a @ n @ b"
    then obtain a b where "s = a @ n @ b" by blast
    then have "rev s = rev b @ rev n @ rev a" by simp
    then show "\<exists>a b. rev s = a @ rev n @ b" by blast
  qed
  then show ?thesis by (simp add: str_includes_iff)
qed

lemma includes_between:
  assumes "set a \<subseteq> W" "set b \<subseteq> W" "h \<notin> W" "l \<notin> W"
  shows "str_includes (a @ m @ b) (h # t @ [l]) = str_includes m (h # t @ [l])"
proof -
  have "str_includes (a @ m @ b) (h # t @ [l]) = str_includes (m @ b) (h # t @ [l])"
    using includes_skip [OF assms(1,3)] by simp
  also have "\<dots> = str_includes (rev b @ rev m) (l # rev t @ [h])"
    using includes_rev [of "m @ b" "h # t @ [l]"] by simp
  also have "\<dots> = str_includes (rev m) (l # rev t @ [h])"
    using includes_skip [of "rev b" W l] assms(2,4) by simp
  also have "\<dots> = str_includes m (h # t @ [l])"
    using includes_rev [of m "h # t @ [l]"] by simp
  finally show ?thesis .
qed

lemma manual_no_issue:
  "(manual \<noteq> [] \<and> str_includes (toLowerCase (trim manual)) ''no issue'')
   = str_includes (toLowerCase manual) ''no issue''"
proof (cases "manual = []")
  case True
  then show ?thesis by (simp add: toLowerCase_def)
next
  case False
  obtain a b where m: "manual = a @ trim manual @ b"
    and a: "set a \<subseteq> set (concat ws_tokens)" and b: "set b \<subseteq> set (concat ws_tokens)"
    using trim_decomp [of manual] by blast
  have n: "CHR ''n'' \<notin> set (concat ws_tokens)" "CHR ''e'' \<notin> set (concat ws_tokens)"
    using ws_bytes_table unfolding list_all_iff by blast+
  have "toLowerCase manual = toLowerCase a @ toLowerCase (trim manual) @ toLowerCase b"
    by (subst m) (simp add: toLowerCase_def)
  then have "toLowerCase manual = a @ toLowerCase (trim manual) @ b"
    by (simp add: ws_bytes_lower [OF a] ws_bytes_lower [OF b])
  then have "str_includes (toLowerCase manual) ''no issue''
      = str_includes (toLowerCase (trim manual)) ''no issue''"
    using includes_between [OF a b n, of "toLowerCase (trim manual)" "''o issu''"] by simp
  then show ?thesis using False by simp
qed

subsection \<open>Unit audit score\<close>

lemma observation_table:
  "list_all (\<lambda>preset. list_all (\<lambda>b.
      (let p = toLowerCase preset in
       if p = ''no issues observed'' then OBS_MAINT_PTS
       else if str_includes p ''other'' then (if b then OBS_MAINT_PTS else - OBS_MAINT_PTS)
       else if preset = [] \<or> preset = ''-- Select --'' then 0
       else - OBS_MAINT_PTS)
      = (if preset = ''No issues observed'' \<or> (preset = ''Other (manual)'' \<and> b) then 11
         else if preset = ''-- Select --'' then 0 else - 11)) [True, False]) observationsOptions"
  by code_simp

lemma maintenance_table:
  "list_all (\<lambda>preset. list_all (\<lambda>b.
      (let p = toLowerCase preset in
       if p = ''no maintenance required'' \<or> p = ''no issues observed'' then OBS_MAINT_PTS
       else if str_includes p ''other'' then (if b then OBS_MAINT_PTS else - OBS_MAINT_PTS)
       else if preset = [] \<or> preset = ''-- Select --'' then 0
       else - OBS_MAINT_PTS)
      = (if preset = ''No maintenance required'' \<or> (preset = ''Other (manual)'' \<and> b) then 11
         else if preset = ''-- Select --'' then 0 else - 11)) [True, False]) maintenanceOptions"
  by code_simp

lemma getObservationScore_spec:
  assumes "preset \<in> set observationsOptions"
  shows "getObservationScore preset manual = spec_remark_score ''No issues observed'' preset manual"
proof -
  note t = observation_table [unfolded list_all_iff, THEN bspec, OF assms, THEN bspec]
  have b: "str_includes (toLowerCase manual) ''no issue'' \<in> set [True, False]" by auto
  show ?thesis
    unfolding getObservationScore_def spec_remark_score_def manual_no_issue
    using t [OF b] by (simp only: OBS_MAINT_PTS_def)
qed

lemma getMaintenanceScore_spec:
  assumes "preset \<in> set maintenanceOptions"
  shows "getMaintenanceScore preset manual = spec_remark_score ''No maintenance required'' preset manual"
proof -
  note t = maintenance_table [unfolded list_all_iff, THEN bspec, OF assms, THEN bspec]
  have b: "str_includes (toLowerCase manual) ''no issue'' \<in> set [True, False]" by auto
  show ?thesis
    unfolding getMaintenanceScore_def spec_remark_score_def manual_no_issue
    using t [OF b] by (simp only: OBS_MAINT_PTS_def)
qed

lemma fold_checklist_step:
  "fold (checklist_step k h f) xs a
   = a + POINTS_PER_CHECK * int (length (filter (\<lambda>l. toLowerCase (js_String
        (nullish (opt_get k l) (nullish (opt_get h l) (opt_get f l)))) = ''yes'') xs))"
  by (induction xs arbitrary: a) (simp_all add: checklist_step_def Let_def algebra_simps)

lemma params_disjoint:
  "set kitchenParams \<inter> set hygieneParams = {}"
  "set kitchenParams \<inter> set foodSafetyParams = {}"
  "set hygieneParams \<inter> set foodSafetyParams = {}"
  by (simp_all add: kitchenParams_def hygieneParams_def foodSafetyParams_def degree_bytes_def)

lemma lower_answers:
  "toLowerCase ''Yes'' = ''yes''" "toLowerCase ''No'' \<noteq> ''yes''"
  "toLowerCase ''undefined'' \<noteq> ''yes''"
  by (simp_all add: toLowerCase_def lower_char_def)

lemma answered_yes:
  assumes "yes_no_over items m"
  shows "toLowerCase (js_String (m l)) = ''yes'' \<longleftrightarrow> m l = Some ''Yes''"
proof (cases "m l")
  case None
  then show ?thesis by (simp add: js_String_def lower_answers)
next
  case (Some v)
  then have "v = ''Yes'' \<or> v = ''No''" using assms unfolding yes_no_over_def by blast
  then show ?thesis using Some by (auto simp: js_String_def lower_answers)
qed

lemma not_item_None: "yes_no_over items m \<Longrightarrow> l \<notin> set items \<Longrightarrow> m l = None"
  unfolding yes_no_over_def by (cases "m l") auto

lemma checklist_count:
  assumes k: "yes_no_over kitchenParams k" and h: "yes_no_over hygieneParams h"
    and f: "yes_no_over foodSafetyParams f"
  shows "fold (checklist_step (Some k) (Some h) (Some f)) allParams 0
         = 6 * int (yes_count k h f)"
proof -
  let ?P = "\<lambda>l. toLowerCase (js_String
        (nullish (opt_get (Some k) l) (nullish (opt_get (Some h) l) (opt_get (Some f) l)))) = ''yes''"
  have K: "filter ?P kitchenParams = filter (\<lambda>l. k l = Some ''Yes'') kitchenParams"
  proof (rule filter_cong [OF refl])
    fix l assume l: "l \<in> set kitchenParams"
    then have "h l = None" "f l = None"
      using params_disjoint not_item_None [OF h] not_item_None [OF f] by blast+
    then show "?P l = (k l = Some ''Yes'')"
      using answered_yes [OF k, of l] by (cases "k l") (simp_all add: nullish_def opt_get_def)
  qed
  have H: "filter ?P hygieneParams = filter (\<lambda>l. h l = Some ''Yes'') hygieneParams"
  proof (rule filter_cong [OF refl])
    fix l assume l: "l \<in> set hygieneParams"
    then have "k l = None" "f l = None"
      using params_disjoint not_item_None [OF k] not_item_None [OF f] by blast+
    then show "?P l = (h l = Some ''Yes'')"
      using answered_yes [OF h, of l] by (cases "h l") (simp_all add: nullish_def opt_get_def)
  qed
  have F: "filter ?P foodSafetyParams = filter (\<lambda>l. f l = Some ''Yes'') foodSafetyParams"
  proof (rule filter_cong [OF refl])
    fix l assume l: "l \<in> set foodSafetyParams"
    then have "k l = None" "h l = None"
      using params_disjoint not_item_None [OF k] not_item_None [OF h] by blast+
    then show "?P l = (f l = Some ''Yes'')"
      using answered_yes [OF f, of l] by (simp add: nullish_def opt_get_def)
  qed
  show ?thesis
    unfolding fold_checklist_step allParams_def filter_append K H F yes_count_def
    by (simp add: POINTS_PER_CHECK_def)
qed

lemma yes_count_le: "yes_count k h f \<le> 13"
proof -
  have "length (filter (\<lambda>l. k l = Some ''Yes'') kitchenParams) \<le> 5"
    using length_filter_le [of _ kitchenParams] by (simp add: kitchenParams_def)
  moreover have "length (filter (\<lambda>l. h l = Some ''Yes'') hygieneParams) \<le> 3"
    using length_filter_le [of _ hygieneParams] by (simp add: hygieneParams_def)
  moreover have "length (filter (\<lambda>l. f l = Some ''Yes'') foodSafetyParams) \<le> 5"
    using length_filter_le [of _ foodSafetyParams] by (simp add: foodSafetyParams_def)
  ultimately show ?thesis unfolding yes_count_def by linarith
qed

text \<open>
  Claim C1.  For Yes/No answers over the thirteen checklist items and presets taken from
  the two option lists, \<open>computeScores\<close> returns as \<open>scoreOutOf100\<close> the clamp to
  \<open>[0, 100]\<close> of six points per item answered Yes (at most 78) plus the observation and
  the maintenance score, each \<open>+11\<close> for the no-issue preset or for the other preset
  with a manual text that contains "no issue" in any letter case, \<open>0\<close> for the
  unselected preset and \<open>-11\<close> for any other preset; the result lies in \<open>[0, 100]\<close>.
\<close>

theorem computeScores_spec:
  assumes "yes_no_over kitchenParams k" and "yes_no_over hygieneParams h"
    and "yes_no_over foodSafetyParams f"
    and "op \<in> set observationsOptions" and "mp \<in> set maintenanceOptions"
  shows "scoreOutOf100 (computeScores (Some k) (Some h) (Some f) op om mp mm)
         = clamp (6 * int (yes_count k h f)
                  + spec_remark_score ''No issues observed'' op om
                  + spec_remark_score ''No maintenance required'' mp mm) 0 100
       \<and> 6 * int (yes_count k h f) \<le> 78
       \<and> 0 \<le> scoreOutOf100 (computeScores (Some k) (Some h) (Some f) op om mp mm)
       \<and> scoreOutOf100 (computeScores (Some k) (Some h) (Some f) op om mp mm) \<le> 100"
  using yes_count_le [of k h f]
  by (simp add: computeScores_def Let_def checklist_count [OF assms(1-3)]
      getObservationScore_spec [OF assms(4)] getMaintenanceScore_spec [OF assms(5)] clamp_def)

lemma yes_no_over_const:
  "v = ''Yes'' \<or> v = ''No'' \<Longrightarrow> yes_no_over items (map_of (map (\<lambda>l. (l, v)) items))"
  unfolding yes_no_over_def by (auto dest!: map_of_SomeD)

text \<open>
  Thirteen Yes answers with both no-issue presets score 100; thirteen No answers with two
  penalised presets score 0.
\<close>

theorem computeScores_spec_witness:
  "yes_no_over kitchenParams (map_of (map (\<lambda>l. (l, ''Yes'')) kitchenParams))
   \<and> yes_no_over hygieneParams (map_of (map (\<lambda>l. (l, ''Yes'')) hygieneParams))
   \<and> yes_no_over foodSafetyParams (map_of (map (\<lambda>l. (l, ''Yes'')) foodSafetyParams))
   \<and> ''No issues observed'' \<in> set observationsOptions
   \<and> ''No maintenance required'' \<in> set maintenanceOptions
   \<and> scoreOutOf100 (computeScores
        (Some (map_of (map (\<lambda>l. (l, ''Yes'')) kitchenParams)))
        (Some (map_of (map (\<lambda>l. (l, ''Yes'')) hygieneParams)))
        (Some (map_of (map (\<lambda>l. (l, ''Yes'')) foodSafetyParams)))
        ''No issues observed'' [] ''No maintenance required'' []) = 100
   \<and> scoreOutOf100 (computeScores
        (Some (map_of (map (\<lambda>l. (l, ''No'')) kitchenParams)))
        (Some (map_of (map (\<lambda>l. (l, ''No'')) hygieneParams)))
        (Some (map_of (map (\<lambda>l. (l, ''No'')) foodSafetyParams)))
        ''Pest activity or droppings noted'' [] ''Schedule deep-cleaning'' []) = 0"
proof -
  have o1: "''No issues observed'' \<in> set observationsOptions"
    and o2: "''Pest activity or droppings noted'' \<in> set observationsOptions"
    by (simp_all add: observationsOptions_def)
  have m1: "''No maintenance required'' \<in> set maintenanceOptions"
    and m2: "''Schedule deep-cleaning'' \<in> set maintenanceOptions"
    by (simp_all add: maintenanceOptions_def)
  have y: "yes_count (map_of (map (\<lambda>l. (l, ''Yes'')) kitchenParams))
             (map_of (map (\<lambda>l. (l, ''Yes'')) hygieneParams))
             (map_of (map (\<lambda>l. (l, ''Yes'')) foodSafetyParams)) = 13"
    by code_simp
  have n: "yes_count (map_of (map (\<lambda>l. (l, ''No'')) kitchenParams))
             (map_of (map (\<lambda>l. (l, ''No'')) hygieneParams))
             (map_of (map (\<lambda>l. (l, ''No'')) foodSafetyParams)) = 0"
    by code_simp
  have s: "spec_remark_score ''No issues observed'' ''No issues observed'' [] = 11"
    "spec_remark_score ''No maintenance required'' ''No maintenance required'' [] = 11"
    "spec_remark_score ''No issues observed'' ''Pest activity or droppings noted'' [] = - 11"
    "spec_remark_score ''No maintenance required'' ''Schedule deep-cleaning'' [] = - 11"
    by (simp_all add: spec_remark_score_def)
  note yes = yes_no_over_const [of "''Yes''", OF disjI1 [OF refl]]
  note no = yes_no_over_const [of "''No''", OF disjI2 [OF refl]]
  show ?thesis
    using computeScores_spec [OF yes yes yes o1 m1, of "[]" "[]"]
      computeScores_spec [OF no no no o2 m2, of "[]" "[]"]
    by (simp only: y n s o1 m1 yes) (simp add: clamp_def)
qed

subsection \<open>Staff evaluation score\<close>

lemma RATING_VALUE_option:
  "v \<in> set ratingOptions \<Longrightarrow> v \<noteq> [] \<and> RATING_VALUE v = Some (rating_number v)"
  by (auto simp: ratingOptions_def RATING_VALUE_def rating_number_def)

lemma fold_push_rating:
  assumes "\<forall>k \<in> set ks. \<forall>v. r k = Some v \<longrightarrow> v \<in> set ratingOptions"
  shows "fold (push_rating (Some r)) ks acc
         = acc @ map (\<lambda>k. rating_number (the (r k))) (filter (\<lambda>k. r k \<noteq> None) ks)"
  using assms
proof (induction ks arbitrary: acc)
  case Nil
  then show ?case by simp
next
  case (Cons k ks)
  show ?case
  proof (cases "r k")
    case None
    then show ?thesis using Cons by (simp add: push_rating_def opt_get_def)
  next
    case (Some v)
    then have "v \<in> set ratingOptions" using Cons.prems by simp
    then show ?thesis
      using Cons Some RATING_VALUE_option [of v] by (simp add: push_rating_def opt_get_def)
  qed
qed

lemma foldl_plus_sum_list: "foldl (+) a xs = a + sum_list (xs :: int list)"
  by (induction xs arbitrary: a) simp_all

text \<open>
  Claim C2.  When at least one of the five parameters is answered, \<open>computeStaffScore\<close>
  returns the mean of the answered parameters' table values (Excellent 100, Good 80,
  Average 60, Poor 40) rounded to the nearest integer; the grade of a score is A from 90,
  B from 75, C from 60 and D below.  With no parameter answered there is no score.
\<close>

theorem computeStaffScore_spec:
  "(rated r \<and> (\<exists>k \<in> set params. r k \<noteq> None)
      \<longrightarrow> computeStaffScore (Some r) = Some (round (mean_rating r)))
   \<and> ((\<forall>k \<in> set params. r k = None) \<longrightarrow> computeStaffScore (Some r) = None)
   \<and> computedGrade (Some n)
       = (if n \<ge> 90 then ''A'' else if n \<ge> 75 then ''B'' else if n \<ge> 60 then ''C'' else ''D'')
   \<and> computedGrade None = []"
proof (intro conjI impI)
  assume a: "rated r \<and> (\<exists>k \<in> set params. r k \<noteq> None)"
  then have f: "fold (push_rating (Some r)) params []
      = map (\<lambda>k. rating_number (the (r k))) (answered r)"
    using fold_push_rating [of params r "[]"] by (force simp add: rated_def answered_def)
  from a have "answered r \<noteq> []" by (auto simp: answered_def filter_empty_conv)
  then show "computeStaffScore (Some r) = Some (round (mean_rating r))"
    by (simp add: computeStaffScore_def f Math_round_def round_def mean_rating_def
        foldl_plus_sum_list)
next
  assume a: "\<forall>k \<in> set params. r k = None"
  have "fold (push_rating (Some r)) ks acc = acc" if "\<forall>k \<in> set ks. r k = None" for ks acc
    using that by (induction ks arbitrary: acc) (simp_all add: push_rating_def opt_get_def)
  from this [OF a] show "computeStaffScore (Some r) = None"
    by (simp add: computeStaffScore_def)
qed (simp_all add: computedGrade_def scoreToGrade_def)

text \<open>
  The ratings Excellent, Excellent, Good, Average, Poor give 76 and grade B; the empty
  ratings object gives no score.
\<close>

theorem computeStaffScore_spec_witness:
  "rated (map_of (zip params [''Excellent'', ''Excellent'', ''Good'', ''Average'', ''Poor'']))
   \<and> (\<exists>k \<in> set params.
         map_of (zip params [''Excellent'', ''Excellent'', ''Good'', ''Average'', ''Poor'']) k \<noteq> None)
   \<and> computeStaffScore
        (Some (map_of (zip params [''Excellent'', ''Excellent'', ''Good'', ''Average'', ''Poor''])))
       = Some 76
   \<and> computedGrade (Some 76) = ''B''
   \<and> computeStaffScore (Some Map.empty) = None"
proof -
  let ?r = "map_of (zip params [''Excellent'', ''Excellent'', ''Good'', ''Average'', ''Poor''])"
  have r: "rated ?r" by code_simp
  have e: "\<exists>k \<in> set params. ?r k \<noteq> None" by code_simp
  have m: "round (mean_rating ?r) = 76" by code_simp
  have s: "computeStaffScore (Some ?r) = Some 76"
    using computeStaffScore_spec [of ?r 76] r e m by metis
  have g: "computedGrade (Some 76) = ''B''"
    using computeStaffScore_spec [of ?r 76] by simp
  have z: "computeStaffScore (Some Map.empty) = None"
    using computeStaffScore_spec [of Map.empty 0] by simp
  show ?thesis using r e s g z by blast
qed

subsection \<open>Date normalizers\<close>

lemma str_includes_char: "str_includes s [c] \<longleftrightarrow> c \<in> set s"
  by (induction s) auto

lemma split_nonempty: "split c s \<noteq> []"
  by (induction s) (auto split: list.splits)

lemma split_no_sep: "c \<notin> set a \<Longrightarrow> split c a = [a]"
  by (induction a) auto

lemma split_append: "c \<notin> set a \<Longrightarrow> split c (a @ c # b) = a # split c b"
  by (induction a) auto

lemma split_three:
  "c \<notin> set p1 \<Longrightarrow> c \<notin> set p2 \<Longrightarrow> c \<notin> set p3 \<Longrightarrow> split c (p1 @ c # p2 @ c # p3) = [p1, p2, p3]"
  by (simp add: split_append split_no_sep)

lemma split_Cons:
  "split c s = p # ps \<Longrightarrow>
     c \<notin> set p \<and> (if ps = [] then s = p else \<exists>r. s = p @ c # r \<and> split c r = ps)"
proof (induction s arbitrary: p ps)
  case Nil
  then show ?case by simp
next
  case (Cons x xs)
  show ?case
  proof (cases "x = c")
    case True
    then show ?thesis using Cons.prems split_nonempty [of c xs] by auto
  next
    case False
    then obtain q where q: "split c xs = q # ps" "p = x # q"
      using Cons.prems split_nonempty [of c xs] by (auto split: list.splits)
    from Cons.IH [OF q(1)] show ?thesis using False q(2) by auto
  qed
qed

lemma split_three_D:
  assumes "split c s = [p1, p2, p3]"
  shows "s = p1 @ c # p2 @ c # p3 \<and> c \<notin> set p1 \<and> c \<notin> set p2 \<and> c \<notin> set p3"
proof -
  from split_Cons [OF assms] obtain r where r: "c \<notin> set p1" "s = p1 @ c # r" "split c r = [p2, p3]"
    by auto
  from split_Cons [OF r(3)] obtain r' where r': "c \<notin> set p2" "r = p2 @ c # r'" "split c r' = [p3]"
    by auto
  from split_Cons [OF r'(3)] have "c \<notin> set p3" "r' = p3" by auto
  then show ?thesis using r r' by simp
qed

lemma token_shape:
  "list_all (\<lambda>t. t \<noteq> [] \<and> code_units (hd t) = 1 \<and> list_all (\<lambda>c. code_units c = 0) (tl t)
                  \<and> \<not> isDigit (hd t) \<and> \<not> isDigit (last t)) ws_tokens"
  by code_simp

lemma digit_units: "list_all (\<lambda>c. code_units c = 1 \<and> c \<noteq> CHR ''/'') ''0123456789''"
  by code_simp

lemma digit_facts:
  assumes "isDigit c"
  shows "code_units c = 1" "c \<noteq> CHR ''/''"
proof -
  from assms have "c \<in> set ''0123456789''" by (simp only: isDigit_def)
  then have "code_units c = 1 \<and> c \<noteq> CHR ''/''"
    by (rule digit_units [unfolded list_all_iff, THEN bspec])
  then show "code_units c = 1" "c \<noteq> CHR ''/''" by simp_all
qed

lemma js_length_append: "js_length (a @ b) = js_length a + js_length b"
  by (simp add: js_length_def)

lemma js_length_digits: "list_all isDigit p \<Longrightarrow> js_length p = length p"
proof (induction p)
  case Nil
  show ?case by (simp add: js_length_def)
next
  case (Cons c p)
  then have "code_units c = 1" using digit_facts(1) by simp
  then show ?case using Cons by (simp add: js_length_def)
qed

lemma digit_not_slash: "isDigit c \<Longrightarrow> c \<noteq> CHR ''/''"
  by (rule digit_facts(2))

lemma js_length_token:
  assumes "t \<in> set ws_tokens"
  shows "js_length t = 1" "\<And>k. js_length (take k t) \<le> 1" "\<And>k. 0 < k \<Longrightarrow> js_length (drop k t) = 0"
proof -
  from assms token_shape have ne: "t \<noteq> []" and h: "code_units (hd t) = 1"
    and c: "list_all (\<lambda>c. code_units c = 0) (tl t)" by (auto simp: list_all_iff)
  obtain x r where t: "t = x # r" using ne by (cases t) auto
  have z: "js_length u = 0" if "set u \<subseteq> set r" for u
    using that c t by (induction u) (auto simp: js_length_def list_all_iff)
  show "js_length t = 1" using h z [of r] by (simp add: t js_length_def)
  show "js_length (take k t) \<le> 1" for k
  proof (cases k)
    case 0
    then show ?thesis by (simp add: js_length_def)
  next
    case (Suc n)
    have "js_length (take n r) = 0" by (rule z) (rule set_take_subset)
    then show ?thesis using h by (simp add: t Suc js_length_def)
  qed
  show "js_length (drop k t) = 0" if "0 < k" for k
  proof -
    obtain n where k: "k = Suc n" using \<open>0 < k\<close> by (cases k) auto
    have "js_length (drop n r) = 0" by (rule z) (rule set_drop_subset)
    then show ?thesis by (simp add: t k)
  qed
qed

text \<open>A token at the start of \<open>p @ r\<close> lies within \<open>p\<close> when \<open>p\<close> has two code units.\<close>

lemma token_within_start:
  assumes t: "t \<in> set ws_tokens" and e: "take (length t) (p @ r) = t" and l: "2 \<le> js_length p"
  shows "take (length t) p = t"
proof (cases "length t \<le> length p")
  case True
  then show ?thesis using e by simp
next
  case False
  then have "take (length p) t = p" by (subst e [symmetric]) simp
  then have "js_length p \<le> 1" using js_length_token(2) [OF t, of "length p"] by simp
  then show ?thesis using l by simp
qed

text \<open>A token at the end of \<open>l @ p\<close> lies within \<open>p\<close> when \<open>p\<close> has a code unit.\<close>

lemma token_within_end:
  assumes t: "t \<in> set ws_tokens" and e: "take (length t) (rev (l @ p)) = rev t"
    and l: "1 \<le> js_length p"
  shows "take (length t) (rev p) = rev t"
proof (cases "length t \<le> length p")
  case True
  then show ?thesis using e by simp
next
  case False
  then have "take (length p) (rev t) = rev p" by (subst e [symmetric]) simp
  then have "rev (take (length p) (rev t)) = p" by simp
  then have "drop (length t - length p) t = p" by (simp add: rev_take)
  moreover have "0 < length t - length p" using False by simp
  ultimately have "js_length p = 0" using js_length_token(3) [OF t] by metis
  then show ?thesis using l by simp
qed

lemma clean_start_digit:
  assumes "s \<noteq> []" "isDigit (hd s)"
  shows "token_len ws_tokens s = 0"
proof (rule token_len_zeroI)
  fix t assume t: "t \<in> set ws_tokens"
  then have ne: "t \<noteq> []" and d: "\<not> isDigit (hd t)" using token_shape by (auto simp: list_all_iff)
  show "take (length t) s \<noteq> t"
  proof
    assume "take (length t) s = t"
    then have "hd t = hd s" using ne assms(1) by (metis hd_take length_greater_0_conv)
    then show False using d assms(2) by simp
  qed
qed

lemma clean_end_digit:
  assumes "s \<noteq> []" "isDigit (last s)"
  shows "token_len (map rev ws_tokens) (rev s) = 0"
proof (rule token_len_zeroI)
  fix u assume "u \<in> set (map rev ws_tokens)"
  then obtain t where t: "t \<in> set ws_tokens" and u: "u = rev t" by auto
  then have ne: "t \<noteq> []" and d: "\<not> isDigit (last t)" using token_shape by (auto simp: list_all_iff)
  show "take (length u) (rev s) \<noteq> u"
  proof
    assume "take (length u) (rev s) = u"
    then have "hd u = hd (rev s)" using ne u assms(1)
      by (metis hd_take length_greater_0_conv rev_is_Nil_conv)
    then have "last t = last s" using ne assms(1) by (simp add: u hd_rev)
    then show False using d assms(2) by simp
  qed
qed

lemma clean_ends_digits:
  assumes "s \<noteq> []" "isDigit (hd s)" "isDigit (last s)"
  shows "clean_ends s"
  using clean_start_digit [OF assms(1,2)] clean_end_digit [OF assms(1,3)]
  by (simp add: clean_ends_def)

lemma padStart2_two: "js_length p = 2 \<Longrightarrow> padStart2 p = p"
  by (simp add: padStart2_def)

lemma js_length_padStart2: "js_length p \<le> 2 \<Longrightarrow> js_length (padStart2 p) = 2"
proof -
  have "js_length (replicate k CHR ''0'') = k" for k
    using digit_units by (induction k) (simp_all add: js_length_def)
  then show "js_length p \<le> 2 \<Longrightarrow> js_length (padStart2 p) = 2"
    by (simp add: padStart2_def js_length_append)
qed

lemma set_padStart2: "set (padStart2 p) \<subseteq> insert CHR ''0'' (set p)"
  by (auto simp: padStart2_def)

lemma padStart2_digits:
  assumes "list_all isDigit p"
  shows "list_all isDigit (padStart2 p)"
proof -
  have "isDigit CHR ''0''" by (simp add: isDigit_def)
  then have "list_all isDigit (replicate k CHR ''0'')" for k by (induction k) simp_all
  then show ?thesis using assms by (simp add: padStart2_def)
qed

lemma length_padStart2_digits:
  "list_all isDigit p \<Longrightarrow> length p \<le> 2 \<Longrightarrow> length (padStart2 p) = 2"
  using js_length_padStart2 [of p] js_length_digits [of p] js_length_digits [OF padStart2_digits, of p]
  by simp

text \<open>A string of three slash-free parts of widths 2, 2 and 4 with clean ends.\<close>

lemma ensure_fixed:
  assumes len: "js_length q1 = 2" "js_length q2 = 2" "js_length p3 = 4"
    and sl: "CHR ''/'' \<notin> set q1" "CHR ''/'' \<notin> set q2" "CHR ''/'' \<notin> set p3"
    and ws: "clean_ends (q1 @ ''/'' @ q2 @ ''/'' @ p3)"
  shows "ensureDDMMYYYY parse (Some (q1 @ ''/'' @ q2 @ ''/'' @ p3)) = q1 @ ''/'' @ q2 @ ''/'' @ p3"
proof -
  let ?o = "q1 @ ''/'' @ q2 @ ''/'' @ p3"
  have t: "trim ?o = ?o" using trim_id [OF ws] .
  have i: "str_includes ?o ''/''" by (simp add: str_includes_char)
  have s: "split CHR ''/'' ?o = [q1, q2, p3]" using split_three [OF sl] by simp
  have "ensure_parts ?o = Some [q1, q2, p3]" by (simp only: ensure_parts_def i s if_True)
  then show ?thesis
    by (simp only: ensureDDMMYYYY_def option.case Let_def t list.case len padStart2_two) simp
qed

lemma digits_three_clean:
  assumes "q1 \<noteq> []" "p3 \<noteq> []" "list_all isDigit q1" "list_all isDigit p3"
  shows "clean_ends (q1 @ ''/'' @ q2 @ ''/'' @ p3)"
proof (rule clean_ends_digits)
  show "q1 @ ''/'' @ q2 @ ''/'' @ p3 \<noteq> []" using assms(1) by simp
  show "isDigit (hd (q1 @ ''/'' @ q2 @ ''/'' @ p3))" using assms(1,3) by (simp add: list_all_iff)
  show "isDigit (last (q1 @ ''/'' @ q2 @ ''/'' @ p3))" using assms(2,4) by (simp add: list_all_iff)
qed

lemma test_dmy_fixed:
  assumes "length q1 = 2" "length q2 = 2" "length p3 = 4"
    and "list_all isDigit q1" "list_all isDigit q2" "list_all isDigit p3"
  shows "formatDateDDMMYYYY parse (Some (q1 @ ''/'' @ q2 @ ''/'' @ p3)) = q1 @ ''/'' @ q2 @ ''/'' @ p3"
proof -
  let ?o = "q1 @ ''/'' @ q2 @ ''/'' @ p3"
  have ne: "q1 \<noteq> []" "p3 \<noteq> []" using assms by auto
  have t: "trim ?o = ?o" by (rule trim_id) (rule digits_three_clean [OF ne assms(4,6)])
  have sl: "CHR ''/'' \<notin> set q1" "CHR ''/'' \<notin> set q2" "CHR ''/'' \<notin> set p3"
    using assms(4-6) digit_not_slash by (auto simp: list_all_iff)
  have s: "split CHR ''/'' ?o = [q1, q2, p3]" using split_three [OF sl] by simp
  have d: "test_dmy ?o" using assms by (simp only: test_dmy_def s list.case) simp
  have o: "?o \<noteq> []" using ne by simp
  have j: "js_length q1 = 2" "js_length q2 = 2" using assms(1,2,4,5) by (simp_all add: js_length_digits)
  show ?thesis
    using o by (simp only: formatDateDDMMYYYY_def option.case t d s list.case if_True if_False
        padStart2_two j)
qed

lemma canonical_parts:
  assumes "canonical c"
  obtains q1 q2 p3 where "c = q1 @ ''/'' @ q2 @ ''/'' @ p3"
    "length q1 = 2" "length q2 = 2" "length p3 = 4"
    "list_all isDigit q1" "list_all isDigit q2" "list_all isDigit p3"
proof -
  from assms have l: "length c = 10" and s2: "c ! 2 = CHR ''/''" and s5: "c ! 5 = CHR ''/''"
    and d: "list_all isDigit (take 2 c)" "list_all isDigit (take 2 (drop 3 c))"
      "list_all isDigit (drop 6 c)"
    by (simp_all add: canonical_def)
  have 1: "c = take 2 c @ c ! 2 # drop 3 c"
    using id_take_nth_drop [of 2 c] l by simp
  have 2: "drop 3 c = take 2 (drop 3 c) @ c ! 5 # drop 6 c"
    using id_take_nth_drop [of 2 "drop 3 c"] l by simp
  have "c = take 2 c @ ''/'' @ take 2 (drop 3 c) @ ''/'' @ drop 6 c"
    using 1 2 s2 s5 by simp
  then show ?thesis using that [of "take 2 c" "take 2 (drop 3 c)" "drop 6 c"] l d by simp
qed

lemma canonical_fixed:
  assumes "canonical c"
  shows "ensureDDMMYYYY parse (Some c) = c" "formatDateDDMMYYYY parse (Some c) = c"
proof -
  from assms obtain q1 q2 p3 where c: "c = q1 @ ''/'' @ q2 @ ''/'' @ p3"
    and len: "length q1 = 2" "length q2 = 2" "length p3 = 4"
    and dg: "list_all isDigit q1" "list_all isDigit q2" "list_all isDigit p3"
    by (rule canonical_parts)
  have ne: "q1 \<noteq> []" "p3 \<noteq> []" using len by auto
  have j: "js_length q1 = 2" "js_length q2 = 2" "js_length p3 = 4"
    using len dg by (simp_all add: js_length_digits)
  have sl: "CHR ''/'' \<notin> set q1" "CHR ''/'' \<notin> set q2" "CHR ''/'' \<notin> set p3"
    using dg digit_not_slash by (auto simp: list_all_iff)
  show "ensureDDMMYYYY parse (Some c) = c"
    unfolding c using ensure_fixed [OF j sl digits_three_clean [OF ne dg(1,3)]] .
  show "formatDateDDMMYYYY parse (Some c) = c"
    unfolding c using test_dmy_fixed [OF len dg] .
qed

lemma isDigit_digit_char: "isDigit (digit_char n)"
proof -
  have "n mod 10 < length ''0123456789''" by simp
  then show ?thesis unfolding isDigit_def digit_char_def by (rule nth_mem)
qed

lemma show_nat_small: "n < 10 \<Longrightarrow> show_nat n = [digit_char n]"
  by (subst show_nat.simps) simp

lemma show_nat_step: "10 \<le> n \<Longrightarrow> show_nat n = show_nat (n div 10) @ [digit_char n]"
  by (subst show_nat.simps) simp

lemma show_nat_digits: "list_all isDigit (show_nat n)"
proof (induction n rule: show_nat.induct)
  case (1 n)
  show ?case
  proof (cases "n < 10")
    case True
    then show ?thesis by (simp add: show_nat_small isDigit_digit_char)
  next
    case False
    then show ?thesis using 1 by (simp add: show_nat_step isDigit_digit_char)
  qed
qed

lemma length_show_nat_2: "n < 100 \<Longrightarrow> 1 \<le> length (show_nat n) \<and> length (show_nat n) \<le> 2"
  by (cases "n < 10") (simp_all add: show_nat_small show_nat_step)

lemma length_show_nat_4: "1000 \<le> n \<Longrightarrow> n < 10000 \<Longrightarrow> length (show_nat n) = 4"
proof -
  assume a: "1000 \<le> n" "n < 10000"
  then have 1: "10 \<le> n" and 2: "10 \<le> n div 10" and 3: "10 \<le> n div 10 div 10"
    and 4: "n div 10 div 10 div 10 < 10" by simp_all
  show ?thesis
    by (simp add: show_nat_step [OF 1] show_nat_step [OF 2] show_nat_step [OF 3]
        show_nat_small [OF 4])
qed

lemma canonical_intro:
  assumes "length q1 = 2" "length q2 = 2" "length p3 = 4"
    and "list_all isDigit q1" "list_all isDigit q2" "list_all isDigit p3"
  shows "canonical (q1 @ ''/'' @ q2 @ ''/'' @ p3)"
proof -
  obtain a b where q1: "q1 = [a, b]" using assms(1) by (cases q1; cases "tl q1") auto
  obtain c d where q2: "q2 = [c, d]" using assms(2) by (cases q2; cases "tl q2") auto
  show ?thesis using assms(3-6) unfolding q1 q2 canonical_def by simp
qed

lemma format_fields_canonical:
  assumes "four_digit_year d"
  shows "canonical (format_fields d)"
proof -
  let ?a = "show_int (getDate d)" and ?b = "show_int (getMonth d + 1)"
    and ?y = "show_int (getFullYear d)"
  from assms have r: "1 \<le> getDate d" "getDate d \<le> 31" "0 \<le> getMonth d" "getMonth d \<le> 11"
    "1000 \<le> getFullYear d" "getFullYear d \<le> 9999" by (simp_all add: four_digit_year_def)
  have a: "?a = show_nat (nat (getDate d))" and b: "?b = show_nat (nat (getMonth d + 1))"
    and y: "?y = show_nat (nat (getFullYear d))" using r by (simp_all add: show_int_def)
  have la: "length (padStart2 ?a) = 2" and lb: "length (padStart2 ?b) = 2"
    using length_show_nat_2 [of "nat (getDate d)"] length_show_nat_2 [of "nat (getMonth d + 1)"] r
    by (simp_all add: a b length_padStart2_digits show_nat_digits)
  have ly: "length ?y = 4" using length_show_nat_4 [of "nat (getFullYear d)"] r by (simp add: y)
  have da: "list_all isDigit (padStart2 ?a)" and db: "list_all isDigit (padStart2 ?b)"
    using show_nat_digits by (simp_all add: a b padStart2_digits)
  have dy: "list_all isDigit ?y" using show_nat_digits by (simp add: y)
  show ?thesis
    unfolding format_fields_def using canonical_intro [OF la lb ly da db dy] .
qed

lemma ensure_shape_fixed:
  assumes p: "ensure_parts (trim x) = Some [p1, p2, p3]"
    and len: "js_length p1 \<le> 2" "js_length p2 \<le> 2" "js_length p3 = 4"
  shows "ensureDDMMYYYY parse (Some (padStart2 p1 @ ''/'' @ padStart2 p2 @ ''/'' @ p3))
         = padStart2 p1 @ ''/'' @ padStart2 p2 @ ''/'' @ p3"
proof -
  let ?s = "trim x"
  let ?o = "padStart2 p1 @ ''/'' @ padStart2 p2 @ ''/'' @ p3"
  obtain c where c: "split c ?s = [p1, p2, p3]" and nos: "CHR ''/'' \<notin> set ?s \<or> c = CHR ''/''"
    using p by (auto simp: ensure_parts_def str_includes_char split: if_splits)
  from split_three_D [OF c] have s: "?s = p1 @ c # p2 @ c # p3"
    and cn: "c \<notin> set p1" "c \<notin> set p2" "c \<notin> set p3" by auto
  have "set (trim x) = set p1 \<union> {c} \<union> set p2 \<union> set p3" by (auto simp: s)
  then have sl: "CHR ''/'' \<notin> set p1" "CHR ''/'' \<notin> set p2" "CHR ''/'' \<notin> set p3"
    using nos cn by auto
  then have sl': "CHR ''/'' \<notin> set (padStart2 p1)" "CHR ''/'' \<notin> set (padStart2 p2)"
    using set_padStart2 [of p1] set_padStart2 [of p2] by auto
  have cs: "token_len ws_tokens ?s = 0" "token_len (map rev ws_tokens) (rev ?s) = 0"
    using trim_clean [of x] by (simp_all add: clean_ends_def)
  have start: "token_len ws_tokens ?o = 0"
  proof (cases "js_length p1 = 2")
    case True
    show ?thesis
    proof (rule token_len_zeroI)
      fix t assume t: "t \<in> set ws_tokens"
      show "take (length t) ?o \<noteq> t"
      proof
        assume "take (length t) ?o = t"
        then have "take (length t) (p1 @ (''/'' @ padStart2 p2 @ ''/'' @ p3)) = t"
          by (simp add: padStart2_two [OF True])
        moreover have "2 \<le> js_length p1" using True by simp
        ultimately have e: "take (length t) p1 = t" by (rule token_within_start [OF t])
        have "length (take (length t) p1) \<le> length p1" by simp
        then have "length t \<le> length p1" by (simp only: e)
        then have "take (length t) ?s = t" by (subst s) (simp add: e)
        then show False using token_len_zero [OF cs(1) ws_tokens_nonempty(1) t] by simp
      qed
    qed
  next
    case False
    then have "2 - js_length p1 = Suc (1 - js_length p1)" using len(1) by arith
    then have "padStart2 p1 = CHR ''0'' # replicate (1 - js_length p1) CHR ''0'' @ p1"
      by (simp add: padStart2_def)
    then have "?o \<noteq> []" "isDigit (hd ?o)" by (simp_all add: isDigit_def)
    then show ?thesis by (rule clean_start_digit)
  qed
  have finish: "token_len (map rev ws_tokens) (rev ?o) = 0"
  proof (rule token_len_zeroI)
    fix u assume "u \<in> set (map rev ws_tokens)"
    then obtain t where t: "t \<in> set ws_tokens" and u: "u = rev t" by auto
    show "take (length u) (rev ?o) \<noteq> u"
    proof
      assume "take (length u) (rev ?o) = u"
      then have "take (length t) (rev ((padStart2 p1 @ ''/'' @ padStart2 p2 @ ''/'') @ p3)) = rev t"
        by (simp add: u)
      moreover have "1 \<le> js_length p3" using len(3) by simp
      ultimately have e: "take (length t) (rev p3) = rev t"
        by (rule token_within_end [OF t])
      have "length (take (length t) (rev p3)) \<le> length (rev p3)" by simp
      then have "length t \<le> length p3" by (simp add: e)
      then have "take (length t) (rev ?s) = rev t" by (subst s) (simp add: e)
      then have "take (length u) (rev ?s) = u" by (simp add: u)
      moreover have "u \<in> set (map rev ws_tokens)" using t u by simp
      ultimately show False using token_len_zero [OF cs(2) ws_tokens_nonempty(2)] by blast
    qed
  qed
  have "clean_ends ?o" using start finish by (simp add: clean_ends_def)
  then show ?thesis
    using ensure_fixed [OF js_length_padStart2 [OF len(1)] js_length_padStart2 [OF len(2)] len(3)
        sl' sl(3)] by simp
qed

lemma ensure_idem:
  assumes "three_part (trim x) \<or> parses_to_four_digit_year parse (trim x)"
  shows "ensureDDMMYYYY parse (Some (ensureDDMMYYYY parse (Some x)))
         = ensureDDMMYYYY parse (Some x)"
proof (cases "three_part (trim x)")
  case True
  then obtain p1 p2 p3 where p: "ensure_parts (trim x) = Some [p1, p2, p3]"
    and len: "js_length p1 \<le> 2" "js_length p2 \<le> 2" "js_length p3 = 4"
    by (auto simp: three_part_def split: option.splits list.splits)
  have "ensureDDMMYYYY parse (Some x) = padStart2 p1 @ ''/'' @ padStart2 p2 @ ''/'' @ p3"
    using p len by (simp add: ensureDDMMYYYY_def)
  then show ?thesis using ensure_shape_fixed [OF p len] by simp
next
  case False
  then have g: "ensureDDMMYYYY parse (Some x)
      = (case parse (trim x) of Some d \<Rightarrow> format_fields d | None \<Rightarrow> trim x)"
    by (auto simp: three_part_def ensureDDMMYYYY_def split: option.splits list.splits)
  show ?thesis
  proof (cases "parse (trim x)")
    case None
    then have e: "ensureDDMMYYYY parse (Some x) = trim x" using g by simp
    have "ensureDDMMYYYY parse (Some (trim x))
      = (case parse (trim x) of Some d \<Rightarrow> format_fields d | None \<Rightarrow> trim x)"
      using False
      by (auto simp: three_part_def ensureDDMMYYYY_def trim_trim split: option.splits list.splits)
    then show ?thesis using e None by simp
  next
    case (Some d)
    then have "four_digit_year d" using assms False by (simp add: parses_to_four_digit_year_def)
    then have "canonical (format_fields d)" by (rule format_fields_canonical)
    then show ?thesis using g Some canonical_fixed(1) by simp
  qed
qed

lemma formatDate_idem:
  assumes "test_dmy (trim x) \<or> parses_to_four_digit_year parse x"
  shows "formatDateDDMMYYYY parse (Some (formatDateDDMMYYYY parse (Some x)))
         = formatDateDDMMYYYY parse (Some x)"
proof (cases "x = []")
  case True
  then show ?thesis by (simp add: formatDateDDMMYYYY_def)
next
  case ne: False
  show ?thesis
  proof (cases "test_dmy (trim x)")
    case True
    then obtain a b c where s: "split CHR ''/'' (trim x) = [a, b, c]"
      and d: "list_all isDigit a" "list_all isDigit b" "list_all isDigit c"
      and l: "length a \<le> 2" "length b \<le> 2" "length c = 4"
      by (auto simp: test_dmy_def split: list.splits)
    have o: "formatDateDDMMYYYY parse (Some x) = padStart2 a @ ''/'' @ padStart2 b @ ''/'' @ c"
      using ne True s by (simp add: formatDateDDMMYYYY_def)
    have "list_all isDigit (padStart2 a)" "list_all isDigit (padStart2 b)"
      using d by (simp_all add: padStart2_digits)
    then show ?thesis
      unfolding o
      using test_dmy_fixed [OF length_padStart2_digits [OF d(1) l(1)]
          length_padStart2_digits [OF d(2) l(2)] l(3)] d(3) by blast
  next
    case False
    then have g: "formatDateDDMMYYYY parse (Some x)
       = (case parse x of None \<Rightarrow> x | Some d \<Rightarrow> format_fields d)"
      using ne by (simp add: formatDateDDMMYYYY_def)
    show ?thesis
    proof (cases "parse x")
      case None
      then show ?thesis using g by simp
    next
      case (Some d)
      then have "four_digit_year d" using assms False by (simp add: parses_to_four_digit_year_def)
      then have "canonical (format_fields d)" by (rule format_fields_canonical)
      then show ?thesis using g Some canonical_fixed(2) by simp
    qed
  qed
qed

text \<open>
  Claim C4, as amended.  Both normalizers are idempotent on every input string that has the
  recognised date shape, or that the generic parser rejects, or that the generic parser
  reads as a date with a year from 1000 to 9999; and a canonical \<open>DD/MM/YYYY\<close> string is
  returned unchanged.  (A parsed year outside that range is printed with fewer or more
  than four characters and is parsed anew on the second pass.)
\<close>

theorem normalize_idempotent:
  "(three_part (trim x) \<or> parses_to_four_digit_year parse (trim x)
      \<longrightarrow> ensureDDMMYYYY parse (Some (ensureDDMMYYYY parse (Some x)))
          = ensureDDMMYYYY parse (Some x))
   \<and> (test_dmy (trim x) \<or> parses_to_four_digit_year parse x
      \<longrightarrow> formatDateDDMMYYYY parse (Some (formatDateDDMMYYYY parse (Some x)))
          = formatDateDDMMYYYY parse (Some x))
   \<and> (canonical c
      \<longrightarrow> ensureDDMMYYYY parse (Some c) = c \<and> formatDateDDMMYYYY parse (Some c) = c)"
  using ensure_idem [of x parse] formatDate_idem [of x parse] canonical_fixed [of c parse]
  by blast

theorem normalize_idempotent_witness:
  "parses_to_four_digit_year common_parse (trim ''2024-03-15'')
   \<and> ensureDDMMYYYY common_parse (Some ''2024-03-15'') = ''15/03/2024''
   \<and> ensureDDMMYYYY common_parse (Some (ensureDDMMYYYY common_parse (Some ''2024-03-15'')))
       = ensureDDMMYYYY common_parse (Some ''2024-03-15'')
   \<and> test_dmy (trim ''5/3/2024'')
   \<and> formatDateDDMMYYYY common_parse (Some ''5/3/2024'') = ''05/03/2024''
   \<and> formatDateDDMMYYYY common_parse (Some (formatDateDDMMYYYY common_parse (Some ''5/3/2024'')))
       = formatDateDDMMYYYY common_parse (Some ''5/3/2024'')
   \<and> canonical ''15/03/2024''
   \<and> ensureDDMMYYYY common_parse (Some ''15/03/2024'') = ''15/03/2024''
   \<and> formatDateDDMMYYYY common_parse (Some ''15/03/2024'') = ''15/03/2024''"
proof -
  have p: "parses_to_four_digit_year common_parse (trim ''2024-03-15'')" by code_simp
  have e: "ensureDDMMYYYY common_parse (Some ''2024-03-15'') = ''15/03/2024''" by code_simp
  have t: "test_dmy (trim ''5/3/2024'')" by code_simp
  have f: "formatDateDDMMYYYY common_parse (Some ''5/3/2024'') = ''05/03/2024''" by code_simp
  have c: "canonical ''15/03/2024''" by code_simp
  show ?thesis
    using normalize_idempotent [of "''2024-03-15''" common_parse "''15/03/2024''"]
      normalize_idempotent [of "''5/3/2024''" common_parse "''15/03/2024''"] p e t f c
    by blast
qed

text \<open>
  The claim as stated fails: the ISO date of the year 99 is printed as \<open>01/01/99\<close>, which
  the second pass reads as a date of 1999.
\<close>

theorem normalize_idempotent_counterexample:
  "ensureDDMMYYYY common_parse (Some (ensureDDMMYYYY common_parse (Some ''0099-01-01'')))
     \<noteq> ensureDDMMYYYY common_parse (Some ''0099-01-01'')
   \<and> formatDateDDMMYYYY common_parse
        (Some (formatDateDDMMYYYY common_parse (Some ''0099-01-01'')))
     \<noteq> formatDateDDMMYYYY common_parse (Some ''0099-01-01'')"
  by code_simp

text \<open>
  Claim C8, as amended.  When an input has not the recognised shape and the generic parser
  rejects it, \<open>ensureDDMMYYYY\<close> returns the input with the white space at its ends removed
  and \<open>formatDateDDMMYYYY\<close> returns the input unchanged; an absent input gives the empty
  string, and so does the empty string (which \<open>ensureDDMMYYYY\<close> hands to the parser).
  Every operation of the two functions is total on strings: nothing is thrown.
\<close>

theorem normalize_failure:
  "(\<not> three_part (trim x) \<and> parse (trim x) = None \<longrightarrow> ensureDDMMYYYY parse (Some x) = trim x)
   \<and> (\<not> test_dmy (trim x) \<and> parse x = None \<longrightarrow> formatDateDDMMYYYY parse (Some x) = x)
   \<and> ensureDDMMYYYY parse None = []
   \<and> (parse [] = None \<longrightarrow> ensureDDMMYYYY parse (Some []) = [])
   \<and> formatDateDDMMYYYY parse None = []
   \<and> formatDateDDMMYYYY parse (Some []) = []"
proof (intro conjI impI)
  assume "\<not> three_part (trim x) \<and> parse (trim x) = None"
  then show "ensureDDMMYYYY parse (Some x) = trim x"
    by (auto simp: three_part_def ensureDDMMYYYY_def split: option.splits list.splits)
next
  assume "\<not> test_dmy (trim x) \<and> parse x = None"
  then show "formatDateDDMMYYYY parse (Some x) = x"
    by (simp add: formatDateDDMMYYYY_def)
next
  assume "parse [] = None"
  moreover have "trim [] = []" "ensure_parts [] = None"
    by (simp_all add: trim_Nil ensure_parts_def)
  ultimately show "ensureDDMMYYYY parse (Some []) = []"
    by (simp add: ensureDDMMYYYY_def)
qed (simp_all add: ensureDDMMYYYY_def formatDateDDMMYYYY_def)

theorem normalize_failure_witness:
  "\<not> three_part (trim ''n/a'') \<and> common_parse (trim ''n/a'') = None
   \<and> ensureDDMMYYYY common_parse (Some ''n/a'') = ''n/a''
   \<and> \<not> test_dmy (trim '' soon '') \<and> common_parse '' soon '' = None
   \<and> formatDateDDMMYYYY common_parse (Some '' soon '') = '' soon ''
   \<and> common_parse [] = None
   \<and> ensureDDMMYYYY common_parse (Some []) = []
   \<and> ensureDDMMYYYY common_parse (Some ([CHR 0xC2, CHR 0xA0] @ ''soon'' @ [CHR 0xC2, CHR 0xA0]))
       = ''soon''"
proof -
  let ?s = "[CHR 0xC2, CHR 0xA0] @ ''soon'' @ [CHR 0xC2, CHR 0xA0]"
  have 1: "\<not> three_part (trim ''n/a'')" "common_parse (trim ''n/a'') = None"
    "trim ''n/a'' = ''n/a''" by code_simp+
  have 2: "\<not> test_dmy (trim '' soon '')" "common_parse '' soon '' = None" by code_simp+
  have 3: "common_parse [] = None" by code_simp
  have 4: "\<not> three_part (trim ?s)" "common_parse (trim ?s) = None" "trim ?s = ''soon''"
    by code_simp+
  show ?thesis
    using normalize_failure [of "''n/a''" common_parse] normalize_failure [of "'' soon ''" common_parse]
      normalize_failure [of ?s common_parse] 1 2 3 4 by simp
qed

text \<open>
  The white space that \<open>trim\<close> removes is that of the language: a date after a no-break
  space has the recognised shape.
\<close>

lemma formatDate_no_break_space:
  "formatDateDDMMYYYY common_parse (Some ([CHR 0xC2, CHR 0xA0] @ ''5/3/2024'')) = ''05/03/2024''"
  by code_simp

text \<open>
  The claim as stated fails for \<open>ensureDDMMYYYY\<close>: an unparseable input with blanks around
  it comes back without them.
\<close>

theorem normalize_failure_counterexample:
  "\<not> three_part (trim '' soon '') \<and> common_parse (trim '' soon '') = None
   \<and> ensureDDMMYYYY common_parse (Some '' soon '') \<noteq> '' soon ''"
  by code_simp

subsection \<open>Range filter\<close>

lemma div_step:
  fixes a k :: int
  assumes "0 < k"
  shows "(a + 1) div k = a div k + (if (a + 1) mod k = 0 then 1 else 0)"
proof -
  let ?q = "a div k" and ?r = "a mod k"
  have r: "0 \<le> ?r" "?r < k" using assms by simp_all
  have a: "k * ?q + ?r = a" by simp
  have d: "k * (?q + 1) = k * ?q + k" by (simp add: algebra_simps)
  show ?thesis
  proof (cases "?r + 1 = k")
    case True
    then have e: "a + 1 = k * (?q + 1) + 0" using a d by linarith
    have "(a + 1) div k = ?q + 1" using int_div_pos_eq [OF e] assms by simp
    moreover have "(a + 1) mod k = 0" using int_mod_pos_eq [OF e] assms by simp
    ultimately show ?thesis by simp
  next
    case False
    then have lt: "?r + 1 < k" using r by simp
    have e: "a + 1 = k * ?q + (?r + 1)" using a by linarith
    have "(a + 1) div k = ?q" using int_div_pos_eq [OF e _ lt] r by simp
    moreover have "(a + 1) mod k = ?r + 1" using int_mod_pos_eq [OF e _ lt] r by simp
    ultimately show ?thesis using r by simp
  qed
qed

lemma leap_mods:
  "(y - 1968) mod 4 = 0 \<longleftrightarrow> y mod 4 = 0"
  "(y - 1900) mod 100 = 0 \<longleftrightarrow> y mod 100 = 0"
  "(y - 1600) mod 400 = 0 \<longleftrightarrow> y mod 400 = 0" for y :: int
proof -
  have "(y - 4 * 492) mod 4 = y mod 4" "(y - 100 * 19) mod 100 = y mod 100"
    "(y - 400 * 4) mod 400 = y mod 400"
    by (simp_all only: mod_diff_right_eq [symmetric, of y] mod_mult_self1_is_0 diff_zero mod_mod_trivial)
  then show "(y - 1968) mod 4 = 0 \<longleftrightarrow> y mod 4 = 0"
    "(y - 1900) mod 100 = 0 \<longleftrightarrow> y mod 100 = 0"
    "(y - 1600) mod 400 = 0 \<longleftrightarrow> y mod 400 = 0" by simp_all
qed

lemma leap_dvd: "y mod 100 = 0 \<Longrightarrow> y mod 4 = 0" "y mod 400 = 0 \<Longrightarrow> y mod 100 = 0" for y :: int
proof -
  have "(4::int) dvd 100" "(100::int) dvd 400" by simp_all
  then show "y mod 100 = 0 \<Longrightarrow> y mod 4 = 0" "y mod 400 = 0 \<Longrightarrow> y mod 100 = 0"
    by (meson dvd_trans mod_eq_0_iff_dvd)+
qed

lemma DayFromYear_step:
  "DayFromYear (y + 1) = DayFromYear y + (if InLeapYear y then 366 else 365)"
proof -
  have a: "(y + 1 - 1969) div 4 = (y - 1969) div 4 + (if y mod 4 = 0 then 1 else 0)"
    using div_step [of 4 "y - 1969"] leap_mods(1) [of y] by (simp add: algebra_simps)
  have b: "(y + 1 - 1901) div 100 = (y - 1901) div 100 + (if y mod 100 = 0 then 1 else 0)"
    using div_step [of 100 "y - 1901"] leap_mods(2) [of y] by (simp add: algebra_simps)
  have c: "(y + 1 - 1601) div 400 = (y - 1601) div 400 + (if y mod 400 = 0 then 1 else 0)"
    using div_step [of 400 "y - 1601"] leap_mods(3) [of y] by (simp add: algebra_simps)
  note d = leap_dvd [of y]
  show ?thesis
    unfolding DayFromYear_def InLeapYear_def a b c using d by auto
qed

lemma DayFromYear_mono: "y \<le> y' \<Longrightarrow> DayFromYear y \<le> DayFromYear y'"
proof (induction y' rule: int_ge_induct)
  case base
  show ?case by simp
next
  case (step i)
  then show ?case using DayFromYear_step [of i] by (simp split: if_splits)
qed

lemma DayFromYear_bounds:
  assumes "0 \<le> y" "y \<le> 9999"
  shows "- 800000 \<le> DayFromYear y \<and> DayFromYear y \<le> 3000000"
proof -
  have "DayFromYear 0 = - 719528" "DayFromYear 9999 = 2932532" by (simp_all add: DayFromYear_def)
  then show ?thesis using DayFromYear_mono [OF assms(1)] DayFromYear_mono [OF assms(2)] by simp
qed

lemma month_table:
  "list_all (\<lambda>leap. list_all (\<lambda>m.
       0 \<le> month_start leap (m - 1)
     \<and> month_start leap (m - 1)
         + (if m = 2 then (if leap then 29 else 28)
            else if m = 4 \<or> m = 6 \<or> m = 9 \<or> m = 11 then 30 else 31)
         \<le> (if leap then 366 else 365)
     \<and> list_all (\<lambda>m'. m < m' \<longrightarrow>
           month_start leap (m - 1)
           + (if m = 2 then (if leap then 29 else 28)
              else if m = 4 \<or> m = 6 \<or> m = 9 \<or> m = 11 then 30 else 31)
           \<le> month_start leap (m' - 1)) [1..12]) [1..12]) [True, False]"
  by code_simp

lemma month_facts:
  assumes "1 \<le> m" "m \<le> 12"
  shows "0 \<le> month_start (InLeapYear y) (m - 1)"
    and "month_start (InLeapYear y) (m - 1) + days_in_month y m
         \<le> (if InLeapYear y then 366 else 365)"
    and "1 \<le> m' \<Longrightarrow> m' \<le> 12 \<Longrightarrow> m < m' \<Longrightarrow>
         month_start (InLeapYear y) (m - 1) + days_in_month y m
         \<le> month_start (InLeapYear y) (m' - 1)"
proof -
  have l: "InLeapYear y \<in> set [True, False]" by auto
  have m: "m \<in> set [1..12]" using assms by simp
  note t = month_table [unfolded list_all_iff, THEN bspec, OF l, THEN bspec, OF m]
  show "0 \<le> month_start (InLeapYear y) (m - 1)" using t by blast
  show "month_start (InLeapYear y) (m - 1) + days_in_month y m
         \<le> (if InLeapYear y then 366 else 365)"
    using t unfolding days_in_month_def by blast
  show "month_start (InLeapYear y) (m - 1) + days_in_month y m
         \<le> month_start (InLeapYear y) (m' - 1)"
    if "1 \<le> m'" "m' \<le> 12" "m < m'"
  proof -
    have "m' \<in> set [1..12]" using that by simp
    then show ?thesis using t that(3) unfolding days_in_month_def by blast
  qed
qed

lemma MakeDay_valid:
  assumes "1 \<le> m" "m \<le> 12"
  shows "MakeDay y (m - 1) d = DayFromYear y + month_start (InLeapYear y) (m - 1) + d - 1"
proof -
  have "(m - 1) div 12 = 0" "(m - 1) mod 12 = m - 1" using assms by simp_all
  then show ?thesis by (simp add: MakeDay_def)
qed

lemma MakeDay_strict:
  assumes v: "valid_cal (y, m, d)" and v': "valid_cal (y', m', d')"
    and lt: "y < y' \<or> (y = y' \<and> (m < m' \<or> (m = m' \<and> d < d')))"
  shows "MakeDay y (m - 1) d < MakeDay y' (m' - 1) d'"
proof -
  from v have m: "1 \<le> m" "m \<le> 12" and d: "1 \<le> d" "d \<le> days_in_month y m" by simp_all
  from v' have m': "1 \<le> m'" "m' \<le> 12" and d': "1 \<le> d'" "d' \<le> days_in_month y' m'"
    by simp_all
  note e = MakeDay_valid [OF m, of y d] MakeDay_valid [OF m', of y' d']
  consider "y < y'" | "y = y'" "m < m'" | "y = y'" "m = m'" "d < d'" using lt by blast
  then show ?thesis
  proof cases
    case 1
    then have "DayFromYear (y + 1) \<le> DayFromYear y'" by (intro DayFromYear_mono) simp
    then have "DayFromYear y + (if InLeapYear y then 366 else 365) \<le> DayFromYear y'"
      by (simp only: DayFromYear_step)
    then show ?thesis
      using month_facts(2) [OF m, of y] month_facts(1) [OF m', of y'] d d' unfolding e
      by (simp split: if_splits)
  next
    case 2
    then show ?thesis
      using month_facts(3) [OF m m', of y] d d' unfolding e by simp
  next
    case 3
    then show ?thesis unfolding e by simp
  qed
qed

lemma cal_le_MakeDay:
  assumes v: "valid_cal (y, m, d)" and v': "valid_cal (y', m', d')"
  shows "cal_le (y, m, d) (y', m', d') \<longleftrightarrow> MakeDay y (m - 1) d \<le> MakeDay y' (m' - 1) d'"
proof (cases "cal_le (y, m, d) (y', m', d')")
  case True
  then consider "y = y' \<and> m = m' \<and> d = d'"
    | "y < y' \<or> (y = y' \<and> (m < m' \<or> (m = m' \<and> d < d')))" by (cases "d = d'") auto
  then show ?thesis
  proof cases
    case 1
    then show ?thesis using True by simp
  next
    case 2
    then show ?thesis using MakeDay_strict [OF v v'] True by simp
  qed
next
  case False
  then have "y' < y \<or> (y' = y \<and> (m' < m \<or> (m' = m \<and> d' < d)))" by auto
  then show ?thesis using MakeDay_strict [OF v' v] False by simp
qed

lemma MakeDay_bounds:
  assumes "valid_cal (y, m, d)" "0 \<le> y" "y \<le> 9999"
  shows "- 800000 \<le> MakeDay y (m - 1) d" "MakeDay y (m - 1) d \<le> 3000400"
proof -
  from assms have m: "1 \<le> m" "m \<le> 12" and d: "1 \<le> d" "d \<le> days_in_month y m" by simp_all
  show "- 800000 \<le> MakeDay y (m - 1) d" "MakeDay y (m - 1) d \<le> 3000400"
    using DayFromYear_bounds [OF assms(2,3)] month_facts(1,2) [OF m, of y] d
    unfolding MakeDay_valid [OF m] by (simp_all split: if_splits)
qed

lemma digit_val_range: "0 \<le> digit_val c \<and> digit_val c \<le> 9"
  by (auto simp: digit_val_def split: option.splits dest!: map_of_SomeD)

lemma int_of_digits_snoc: "int_of_digits (p @ [c]) = 10 * int_of_digits p + digit_val c"
  by (simp add: int_of_digits_def)

lemma int_of_digits_range: "0 \<le> int_of_digits p \<and> int_of_digits p < 10 ^ length p"
proof (induction p rule: rev_induct)
  case Nil
  show ?case by (simp add: int_of_digits_def)
next
  case (snoc c p)
  then show ?case using digit_val_range [of c] by (simp add: int_of_digits_snoc)
qed

lemma trunc_of_int: "trunc (of_int n) = n"
  by (simp add: trunc_def)

lemma to_double_int: "\<bar>n\<bar> \<le> 9007199254740992 \<Longrightarrow> to_double (of_int n) = Finite (of_int n)"
proof -
  assume "\<bar>n\<bar> \<le> 9007199254740992"
  then have "of_int \<bar>n\<bar> \<le> (of_int 9007199254740992 :: rat)" by (simp only: of_int_le_iff)
  then have "\<bar>of_int n :: rat\<bar> \<le> 9007199254740992" by simp
  then show ?thesis by (simp add: to_double_def)
qed

lemma digit_signs:
  "list_all (\<lambda>c. c \<notin> set ''-+xXoObBI'') ''0123456789''"
  by code_simp

lemma Number_digits:
  assumes "list_all isDigit p" "p \<noteq> []" "length p \<le> 4"
  shows "Number p = Finite (of_int (int_of_digits p))"
proof -
  obtain c r where p: "p = c # r" using assms(2) by (cases p) auto
  have "isDigit (hd p)" "isDigit (last p)" using assms by (simp_all add: list_all_iff)
  then have t: "trim p = p" using trim_id [OF clean_ends_digits [OF assms(2)]] by simp
  have nd: "c \<notin> set ''-+xXoObBI''" if "isDigit c" for c
    using that digit_signs by (simp only: list_all_iff isDigit_def) blast
  have "isDigit c" using assms(1) p by simp
  then have s: "c \<noteq> CHR ''-''" "c \<noteq> CHR ''+''" "c \<noteq> CHR ''I''" using nd [of c] by auto
  have tw: "takeWhile isDigit p = p" "dropWhile isDigit p = []"
    using assms(1) by (simp_all add: list_all_iff)
  have "int_of_digits p < 10 ^ length p" "0 \<le> int_of_digits p"
    using int_of_digits_range [of p] by simp_all
  moreover have "(10::int) ^ length p \<le> 10 ^ 4" using assms(3) by (intro power_increasing) simp_all
  ultimately have "\<bar>int_of_digits p\<bar> \<le> 9007199254740992" by simp
  then have d: "to_double (of_int (int_of_digits p)) = Finite (of_int (int_of_digits p))"
    by (rule to_double_int)
  have i: "p \<noteq> ''Infinity''" using s(3) by (auto simp: p)
  have u: "unsigned_decimal p = Finite (of_int (int_of_digits p))"
    using assms(2) i d
    by (simp add: unsigned_decimal_def tw Let_def int_of_digits_def [of "[]"] pow10_def)
  have dl: "decimal_literal p = Finite (of_int (int_of_digits p))"
    using s u by (simp add: decimal_literal_def p)
  have n: "Number p = (case p of [] \<Rightarrow> Finite 0 | [c] \<Rightarrow> decimal_literal p
      | z # x # ds \<Rightarrow>
          if z = CHR ''0'' \<and> (x = CHR ''x'' \<or> x = CHR ''X'') then radix_literal 16 ds
          else if z = CHR ''0'' \<and> (x = CHR ''o'' \<or> x = CHR ''O'') then radix_literal 8 ds
          else if z = CHR ''0'' \<and> (x = CHR ''b'' \<or> x = CHR ''B'') then radix_literal 2 ds
          else decimal_literal p)"
    by (simp only: Number_def t Let_def)
  show ?thesis
  proof (cases r)
    case Nil
    then show ?thesis using dl n unfolding p by simp
  next
    case (Cons x ds)
    then have "isDigit x" using assms(1) p by simp
    then have "x \<notin> set ''-+xXoObBI''" by (rule nd)
    then show ?thesis using dl n unfolding p Cons by simp
  qed
qed

lemma js_sub_one:
  assumes "0 \<le> m" "m < 10000"
  shows "js_sub (Finite (of_int m)) (Finite 1) = Finite (of_int (m - 1))"
proof -
  have "\<bar>m - 1\<bar> \<le> 9007199254740992" using assms by simp
  then have "to_double (of_int (m - 1)) = Finite (of_int (m - 1))" by (rule to_double_int)
  then show ?thesis by (simp add: js_sub_def)
qed

lemma new_Date_plain:
  assumes v: "valid_cal (y, m, d)" and y: "100 \<le> y" "y \<le> 9999"
  shows "new_Date (Some (of_int y)) (Some (of_int (m - 1))) (Some (of_int d))
         = Some (MakeDay y (m - 1) d * msPerDay)"
proof -
  have b: "\<bar>MakeDay y (m - 1) d * msPerDay\<bar> \<le> 8640000000000000"
    using MakeDay_bounds [OF v] y by (simp add: msPerDay_def abs_le_iff)
  have "of_int m - (1::rat) = of_int (m - 1)" by simp
  then have t: "trunc (of_int m - 1) = m - 1" by (simp only: trunc_of_int)
  show ?thesis using y b by (simp add: new_Date_def trunc_of_int t Let_def)
qed

lemma build_date:
  assumes "short_numeral ds" "short_numeral ms" "year_numeral ys"
    and "plain_year (int_of_digits ys, int_of_digits ms, int_of_digits ds)"
  shows "new_Date (finite_value (Number ys)) (finite_value (js_sub (Number ms) (Finite 1)))
           (finite_value (Number ds))
         = Some (MakeDay (int_of_digits ys) (int_of_digits ms - 1) (int_of_digits ds) * msPerDay)"
proof -
  have n: "Number ys = Finite (of_int (int_of_digits ys))"
    "Number ms = Finite (of_int (int_of_digits ms))"
    "Number ds = Finite (of_int (int_of_digits ds))"
    using assms(1-3) by (auto simp: short_numeral_def year_numeral_def intro!: Number_digits)
  have "length ys = 4" using assms(3) by (simp add: year_numeral_def)
  then have "int_of_digits ys < 10 ^ 4" using int_of_digits_range [of ys] by simp
  then have y: "int_of_digits ys \<le> 9999" by simp
  have "length ms \<le> 2" using assms(2) by (simp add: short_numeral_def)
  then have "(10::int) ^ length ms \<le> 10 ^ 2" by (intro power_increasing) simp_all
  then have "0 \<le> int_of_digits ms" "int_of_digits ms < 10000"
    using int_of_digits_range [of ms] by simp_all
  then have m: "js_sub (Finite (of_int (int_of_digits ms))) (Finite 1)
                = Finite (of_int (int_of_digits ms - 1))" by (rule js_sub_one)
  show ?thesis unfolding n m finite_value.simps using new_Date_plain [OF _ _ y] assms(4) by simp
qed

lemma parse_dmy:
  assumes "cal_of_dmy s = Some (y, m, d)" "plain_year (y, m, d)"
  shows "parseDDMMYYYYtoDate parse s = Some (MakeDay y (m - 1) d * msPerDay)"
proof -
  from assms(1) obtain ds ms ys where sp: "split CHR ''/'' s = [ds, ms, ys]"
    and sh: "short_numeral ds" "short_numeral ms" "year_numeral ys"
    and e: "y = int_of_digits ys" "m = int_of_digits ms" "d = int_of_digits ds"
    by (auto simp: cal_of_dmy_def split: list.splits if_splits)
  have "s \<noteq> []" using sp by auto
  then show ?thesis
    using build_date [OF sh] assms(2) unfolding e by (simp add: parseDDMMYYYYtoDate_def sp)
qed

lemma parse_iso:
  assumes "cal_of_iso s = Some (y, m, d)" "plain_year (y, m, d)"
  shows "s \<noteq> []" "isoToLocalDate parse s = Some (MakeDay y (m - 1) d * msPerDay)"
    "y \<le> 9999"
proof -
  from assms(1) obtain ds ms ys where sp: "split CHR ''-'' s = [ys, ms, ds]"
    and sh: "short_numeral ds" "short_numeral ms" "year_numeral ys"
    and e: "y = int_of_digits ys" "m = int_of_digits ms" "d = int_of_digits ds"
    by (auto simp: cal_of_iso_def split: list.splits if_splits)
  show "s \<noteq> []" using sp by auto
  then show "isoToLocalDate parse s = Some (MakeDay y (m - 1) d * msPerDay)"
    using build_date [OF sh] assms(2) unfolding e by (simp add: isoToLocalDate_def sp)
  have "length ys = 4" using sh(3) by (simp add: year_numeral_def)
  then have "int_of_digits ys < 10 ^ 4" using int_of_digits_range [of ys] by simp
  then show "y \<le> 9999" unfolding e by simp
qed

lemma day_start: "setHours 0 0 0 0 (n * msPerDay) = n * msPerDay"
  by (simp add: setHours_def msPerDay_def)

lemma day_end: "setHours 23 59 59 999 (n * msPerDay) = n * msPerDay + 86399999"
  by (simp add: setHours_def msPerDay_def)

lemma lower_bound:
  assumes "bound_is s b" "plain_year (y, m, d)"
  shows "(s \<noteq> [] \<and> isoToLocalDate parse s \<noteq> None
          \<and> (case Option.bind (isoToLocalDate parse s) (\<lambda>t. TimeClip (setHours 0 0 0 0 t)) of
               Some f \<Rightarrow> MakeDay y (m - 1) d * msPerDay < f | None \<Rightarrow> False))
         \<longleftrightarrow> \<not> (case b of None \<Rightarrow> True | Some f \<Rightarrow> cal_le f (y, m, d))"
proof (cases b)
  case None
  then show ?thesis using assms(1) by (simp add: bound_is_def)
next
  case (Some f)
  obtain fy fm fd where f: "f = (fy, fm, fd)" by (cases f)
  from assms(1) Some f have c: "cal_of_iso s = Some (fy, fm, fd)" and p: "plain_year (fy, fm, fd)"
    by (simp_all add: bound_is_def)
  note i = parse_iso(1) [OF c p] parse_iso(2) [OF c p, of parse]
  have "fy \<le> 9999" by (rule parse_iso(3) [OF c p])
  then have b: "\<bar>MakeDay fy (fm - 1) fd * msPerDay\<bar> \<le> 8640000000000000"
    using MakeDay_bounds [of fy fm fd] p by (simp add: msPerDay_def abs_le_iff)
  have "cal_le (fy, fm, fd) (y, m, d) \<longleftrightarrow> MakeDay fy (fm - 1) fd \<le> MakeDay y (m - 1) d"
    using cal_le_MakeDay [of fy fm fd y m d] p assms(2) by simp
  moreover have "Option.bind (isoToLocalDate parse s) (\<lambda>t. TimeClip (setHours 0 0 0 0 t))
      = Some (MakeDay fy (fm - 1) fd * msPerDay)"
    using i b by (simp add: day_start TimeClip_def)
  moreover have "MakeDay y (m - 1) d * msPerDay < MakeDay fy (fm - 1) fd * msPerDay
      \<longleftrightarrow> MakeDay y (m - 1) d < MakeDay fy (fm - 1) fd"
    by (simp add: msPerDay_def)
  ultimately show ?thesis using i by (simp add: Some f not_le)
qed

lemma upper_bound:
  assumes "bound_is s b" "plain_year (y, m, d)"
  shows "(s \<noteq> [] \<and> isoToLocalDate parse s \<noteq> None
          \<and> (case Option.bind (isoToLocalDate parse s) (\<lambda>t. TimeClip (setHours 23 59 59 999 t)) of
               Some t \<Rightarrow> MakeDay y (m - 1) d * msPerDay > t | None \<Rightarrow> False))
         \<longleftrightarrow> \<not> (case b of None \<Rightarrow> True | Some t \<Rightarrow> cal_le (y, m, d) t)"
proof (cases b)
  case None
  then show ?thesis using assms(1) by (simp add: bound_is_def)
next
  case (Some t)
  obtain ty tm td where t: "t = (ty, tm, td)" by (cases t)
  from assms(1) Some t have c: "cal_of_iso s = Some (ty, tm, td)" and p: "plain_year (ty, tm, td)"
    by (simp_all add: bound_is_def)
  note i = parse_iso(1) [OF c p] parse_iso(2) [OF c p, of parse]
  have "ty \<le> 9999" by (rule parse_iso(3) [OF c p])
  then have b: "\<bar>MakeDay ty (tm - 1) td * msPerDay + 86399999\<bar> \<le> 8640000000000000"
    using MakeDay_bounds [of ty tm td] p by (simp add: msPerDay_def abs_le_iff)
  have "cal_le (y, m, d) (ty, tm, td) \<longleftrightarrow> MakeDay y (m - 1) d \<le> MakeDay ty (tm - 1) td"
    using cal_le_MakeDay [of y m d ty tm td] p assms(2) by simp
  moreover have "Option.bind (isoToLocalDate parse s) (\<lambda>t. TimeClip (setHours 23 59 59 999 t))
      = Some (MakeDay ty (tm - 1) td * msPerDay + 86399999)"
    using i b by (simp add: day_end TimeClip_def)
  moreover have "MakeDay y (m - 1) d * msPerDay > MakeDay ty (tm - 1) td * msPerDay + 86399999
      \<longleftrightarrow> MakeDay y (m - 1) d > MakeDay ty (tm - 1) td"
    unfolding msPerDay_def by arith
  ultimately show ?thesis using i by (simp add: Some t not_le)
qed

text \<open>
  Claim C5, as amended.  For a record date written \<open>D/M/YYYY\<close> in digits that is a date of
  the calendar with a year from 100 on, and bounds that are each absent or such a date in
  ISO form, \<open>withinRange\<close> holds exactly when the record's calendar date lies in the
  closed range, an absent bound being open; the comparison is by calendar date.
\<close>

theorem withinRange_calendar:
  assumes "cal_of_dmy dateDD = Some c" and "plain_year c"
    and "bound_is fromISO lo" and "bound_is toISO hi"
  shows "withinRange parse dateDD fromISO toISO = in_range c lo hi"
proof -
  obtain y m d where c: "c = (y, m, d)" by (cases c)
  note p = parse_dmy [OF assms(1) [unfolded c] assms(2) [unfolded c], of parse]
  note l = lower_bound [OF assms(3) assms(2) [unfolded c], of parse]
  note u = upper_bound [OF assms(4) assms(2) [unfolded c], of parse]
  have e: "fromISO = [] \<longleftrightarrow> lo = None" "toISO = [] \<longleftrightarrow> hi = None"
    using assms(3,4) by (auto simp: bound_is_def cal_of_iso_def split: option.splits)
  show ?thesis
  proof (cases "fromISO = [] \<and> toISO = []")
    case True
    then show ?thesis using e by (simp add: withinRange_def p in_range_def)
  next
    case False
    then show ?thesis
      using l u unfolding withinRange_def p in_range_def c Let_def
      by (auto split: if_splits)
  qed
qed

theorem withinRange_calendar_witness:
  "cal_of_dmy ''15/03/2024'' = Some (2024, 3, 15) \<and> plain_year (2024, 3, 15)
   \<and> bound_is ''2024-03-01'' (Some (2024, 3, 1)) \<and> bound_is ''2024-03-31'' (Some (2024, 3, 31))
   \<and> withinRange common_parse ''15/03/2024'' ''2024-03-01'' ''2024-03-31''
   \<and> withinRange common_parse ''01/03/2024'' ''2024-03-01'' ''2024-03-31''
   \<and> withinRange common_parse ''31/03/2024'' ''2024-03-01'' ''2024-03-31''
   \<and> \<not> withinRange common_parse ''15/03/2024'' ''2024-04-01'' ''2024-04-30''
   \<and> withinRange common_parse ''15/03/2024'' [] ''2024-03-31''"
proof -
  have d: "cal_of_dmy ''15/03/2024'' = Some (2024, 3, 15)"
    "cal_of_dmy ''01/03/2024'' = Some (2024, 3, 1)"
    "cal_of_dmy ''31/03/2024'' = Some (2024, 3, 31)" by code_simp+
  have p: "plain_year (2024, 3, 15)" "plain_year (2024, 3, 1)" "plain_year (2024, 3, 31)"
    by code_simp+
  have b: "bound_is ''2024-03-01'' (Some (2024, 3, 1))" "bound_is ''2024-03-31'' (Some (2024, 3, 31))"
    "bound_is ''2024-04-01'' (Some (2024, 4, 1))" "bound_is ''2024-04-30'' (Some (2024, 4, 30))"
    "bound_is [] None" by code_simp+
  have r: "in_range (2024, 3, 15) (Some (2024, 3, 1)) (Some (2024, 3, 31))"
    "in_range (2024, 3, 1) (Some (2024, 3, 1)) (Some (2024, 3, 31))"
    "in_range (2024, 3, 31) (Some (2024, 3, 1)) (Some (2024, 3, 31))"
    "\<not> in_range (2024, 3, 15) (Some (2024, 4, 1)) (Some (2024, 4, 30))"
    "in_range (2024, 3, 15) None (Some (2024, 3, 31))"
    by (simp_all add: in_range_def)
  show ?thesis
    using withinRange_calendar [OF d(1) p(1) b(1) b(2), of common_parse]
      withinRange_calendar [OF d(2) p(2) b(1) b(2), of common_parse]
      withinRange_calendar [OF d(3) p(3) b(1) b(2), of common_parse]
      withinRange_calendar [OF d(1) p(1) b(3) b(4), of common_parse]
      withinRange_calendar [OF d(1) p(1) b(5) b(2), of common_parse]
      d(1) p(1) b(1) b(2) r
    by simp
qed

text \<open>
  The claim as stated fails for years below 100, which the \<open>Date\<close> constructor moves to
  1900 to 1999: the first of January of the year 50 passes the lower bound of the year 100.
\<close>

theorem withinRange_calendar_counterexample:
  "cal_of_dmy ''01/01/0050'' = Some (50, 1, 1) \<and> valid_cal (50, 1, 1)
   \<and> cal_of_iso ''0100-01-01'' = Some (100, 1, 1) \<and> valid_cal (100, 1, 1)
   \<and> withinRange common_parse ''01/01/0050'' ''0100-01-01'' []
   \<and> \<not> in_range (50, 1, 1) (Some (100, 1, 1)) None"
  by code_simp

subsection \<open>Deduplication\<close>




lemma first_by_id_fresh:
  "ident json ` set (first_by_id json seen xs) \<inter> seen = {}
   \<and> distinct (map (ident json) (first_by_id json seen xs))"
proof (induction xs arbitrary: seen)
  case Nil
  show ?case by simp
next
  case (Cons x xs)
  show ?case
  proof (cases "ident json x \<in> seen")
    case True
    then show ?thesis using Cons.IH [of seen] by simp
  next
    case False
    then show ?thesis using Cons.IH [of "insert (ident json x) seen"] by auto
  qed
qed

lemma first_by_id_distinct:
  "distinct (map (ident json) xs) \<Longrightarrow> ident json ` set xs \<inter> seen = {}
   \<Longrightarrow> first_by_id json seen xs = xs"
proof (induction xs arbitrary: seen)
  case Nil
  show ?case by simp
next
  case (Cons x xs)
  then have "ident json x \<notin> seen" by auto
  moreover have "first_by_id json (insert (ident json x) seen) xs = xs"
    using Cons.prems by (intro Cons.IH) auto
  ultimately show ?case by simp
qed

lemma first_by_id_seen:
  "ident json x \<in> seen \<union> ident json ` set pre
   \<Longrightarrow> first_by_id json seen (pre @ x # post) = first_by_id json seen (pre @ post)"
proof (induction pre arbitrary: seen)
  case Nil
  then show ?case by simp
next
  case (Cons p pre)
  show ?case
  proof (cases "ident json p \<in> seen")
    case True
    then show ?thesis using Cons.IH [of seen] Cons.prems by auto
  next
    case False
    then show ?thesis using Cons.IH [of "insert (ident json p) seen"] Cons.prems by auto
  qed
qed


subsection \<open>Records without a readable date\<close>






















end
